theory Spec2Isabelle
  imports Complex_Main "HOL-Library.Log_Nat"
begin

section \<open>Errors and arrays\<close>

text \<open>
  The three functions of \<^verbatim>\<open>landshark/image.py\<close> fail in three ways: a failed
  \<^verbatim>\<open>assert\<close> (an \<^verbatim>\<open>AssertionError\<close>, which carries no message here), an index
  past the end of an array (\<^verbatim>\<open>IndexError\<close>), and the explicit
  \<^verbatim>\<open>raise ValueError("Queried location is not in the image")\<close>. An error is the
  left summand of the result, and the \<^verbatim>\<open>ValueError\<close> keeps its message.
\<close>

datatype error = AssertionError | IndexError | ValueError string

text \<open>
  A numpy array as far as \<^verbatim>\<open>image_to_world\<close> inspects it: the number of
  dimensions, the element type tag, and the elements in order. For a one-dimensional
  array \<^verbatim>\<open>shape[0]\<close> is the length of \<open>items\<close>.
\<close>

datatype dtype = Int32 | Int64 | Float32 | Float64

record 'a ndarray =
  ndim :: nat
  dtype :: dtype
  items :: "'a list"

section \<open>Ordered search\<close>

text \<open>
  \<^verbatim>\<open>np.searchsorted(a, v, side)\<close> belongs to numpy, not to this repository. It
  is modelled by its documented result on an array sorted in ascending order: with
  \<^verbatim>\<open>side="left"\<close> the first index \<open>i\<close> with \<open>v \<le> a[i]\<close>, with
  \<^verbatim>\<open>side="right"\<close> the first index \<open>i\<close> with \<open>v < a[i]\<close>, and the length of
  \<open>a\<close> when there is none. Coordinates are only compared, never computed with, by the
  two lookups, so these are stated over any linear order (a float64 \<^verbatim>\<open>nan\<close>, which
  compares unequal to itself, is outside the model).
\<close>

definition searchsorted_left :: "'a::linorder list \<Rightarrow> 'a \<Rightarrow> nat" where
  "searchsorted_left a v = length (takeWhile (\<lambda>x. x < v) a)"

definition searchsorted_right :: "'a::linorder list \<Rightarrow> 'a \<Rightarrow> nat" where
  "searchsorted_right a v = length (takeWhile (\<lambda>x. x \<le> v) a)"

section \<open>Forward lookup: image\_to\_world\<close>

text \<open>
  The six assertions in the order of the source, then the gather
  \<^verbatim>\<open>pixel_coordinate_array[indices]\<close>. After the last two assertions every index
  \<open>i\<close> satisfies \<open>0 \<le> i < length - 1\<close>, so the gather never reads out of range and
  never takes numpy's wrap-around path for negative indices.
\<close>

definition image_to_world :: "int ndarray \<Rightarrow> 'a ndarray \<Rightarrow> error + 'a list" where
  "image_to_world indices pixel_coordinate_array =
     (if ndim indices \<noteq> 1 then Inl AssertionError
      else if dtype indices \<noteq> Int64 then Inl AssertionError
      else if ndim pixel_coordinate_array \<noteq> 1 then Inl AssertionError
      else if dtype pixel_coordinate_array \<noteq> Float64 then Inl AssertionError
      else if \<not> list_all (\<lambda>i. 0 \<le> i) (items indices) then Inl AssertionError
      else if \<not> list_all (\<lambda>i. i < int (length (items pixel_coordinate_array)) - 1)
                 (items indices)
        then Inl AssertionError
      else Inr (map (\<lambda>i. items pixel_coordinate_array ! nat i) (items indices)))"

section \<open>Inverse lookup: world\_to\_image\<close>

text \<open>
  The function is modelled on one-dimensional arrays, given by their elements.
  \<^verbatim>\<open>pixel_coordinate_array[1]\<close> raises \<^verbatim>\<open>IndexError\<close> on an array shorter
  than two; past that check \<^verbatim>\<open>pixel_coordinate_array[-1]\<close> is the last element.
  \<^verbatim>\<open>idx[on_end] -= 1\<close> lowers exactly the entries whose mask bit is set, and the
  final test runs over all entries before anything is returned.
\<close>

definition world_to_image :: "'a::linorder list \<Rightarrow> 'a list \<Rightarrow> error + int list" where
  "world_to_image points pixel_coordinate_array =
     (if length pixel_coordinate_array < 2 then Inl IndexError
      else
        let reverse = pixel_coordinate_array ! 1 < pixel_coordinate_array ! 0;
            idx =
              (if reverse then
                 let rev_idx =
                       map (\<lambda>p. int (searchsorted_left (rev pixel_coordinate_array) p) + 1)
                         points
                 in map (\<lambda>r. int (length pixel_coordinate_array) - r) rev_idx
               else
                 map (\<lambda>p. int (searchsorted_right pixel_coordinate_array p) - 1) points);
            on_end = map (\<lambda>p. p = last pixel_coordinate_array) points;
            idx = map (\<lambda>(i, m). if m then i - 1 else i) (zip idx on_end);
            res = int (length pixel_coordinate_array) - 1
        in if \<not> list_all (\<lambda>i. 0 \<le> i \<and> i < res) idx
           then Inl (ValueError ''Queried location is not in the image'')
           else Inr idx)"

text \<open>
  The index computed for one query point, before validation: what the vectorised
  code above does to each entry. It exists for the proofs only.
\<close>

definition pixel_of :: "'a::linorder list \<Rightarrow> 'a \<Rightarrow> int" where
  "pixel_of g q =
     (if g ! 1 < g ! 0 then int (length g) - (int (searchsorted_left (rev g) q) + 1)
      else int (searchsorted_right g q) - 1)
     - (if q = last g then 1 else 0)"

text \<open>The grids the specification calls edge grids: strictly monotonic either way.\<close>

definition ascending :: "'a::linorder list \<Rightarrow> bool" where
  "ascending g = sorted_wrt (<) g"

definition descending :: "'a::linorder list \<Rightarrow> bool" where
  "descending g = sorted_wrt (>) g"

definition strictly_monotonic :: "'a::linorder list \<Rightarrow> bool" where
  "strictly_monotonic g = (ascending g \<or> descending g)"

section \<open>Double-precision arithmetic\<close>

text \<open>
  The edge grids are float64 arrays, and the builder multiplies and adds in float64.
  A float64 value is \<^verbatim>\<open>nan\<close> or a number: a finite double (a rational) or plus or
  minus infinity. The two zeros of IEEE arithmetic compare equal and are one value
  here. Numbers are ordered as IEEE comparison orders them. \<^verbatim>\<open>nan\<close> has no place
  in that order (every IEEE comparison with it is false), so the order is declared
  on numbers only, and the lookups, which work over an order, apply to arrays of
  numbers.
\<close>

datatype number = Finite rat | PosInf | NegInf

datatype f64 = Number number | NaN

abbreviation Fin :: "rat \<Rightarrow> f64" where
  "Fin x \<equiv> Number (Finite x)"

fun number_le :: "number \<Rightarrow> number \<Rightarrow> bool" where
  "number_le NegInf b = True"
| "number_le a PosInf = True"
| "number_le (Finite x) (Finite y) = (x \<le> y)"
| "number_le a b = False"

fun number_neg :: "number \<Rightarrow> number" where
  "number_neg (Finite x) = Finite (- x)"
| "number_neg PosInf = NegInf"
| "number_neg NegInf = PosInf"

instantiation number :: "{uminus, linorder}"
begin

definition uminus_number :: "number \<Rightarrow> number" where
  "uminus_number = number_neg"

definition less_eq_number :: "number \<Rightarrow> number \<Rightarrow> bool" where
  "less_eq_number = number_le"

definition less_number :: "number \<Rightarrow> number \<Rightarrow> bool" where
  "less_number a b = (number_le a b \<and> \<not> number_le b a)"

instance
proof
  fix a b c :: number
  show "(a < b) = (a \<le> b \<and> \<not> b \<le> a)"
    by (simp add: less_number_def less_eq_number_def)
  show "a \<le> a"
    by (cases a) (simp_all add: less_eq_number_def)
  show "a \<le> b \<Longrightarrow> b \<le> c \<Longrightarrow> a \<le> c"
    by (cases a; cases b; cases c) (simp_all add: less_eq_number_def)
  show "a \<le> b \<Longrightarrow> b \<le> a \<Longrightarrow> a = b"
    by (cases a; cases b) (simp_all add: less_eq_number_def)
  show "a \<le> b \<or> b \<le> a"
    by (cases a; cases b) (auto simp: less_eq_number_def)
qed

end

instantiation f64 :: uminus
begin

fun uminus_f64 :: "f64 \<Rightarrow> f64" where
  "uminus_f64 (Number v) = Number (- v)"
| "uminus_f64 NaN = NaN"

instance ..

end

text \<open>
  An IEEE operation on finite operands returns the exact result rounded to the
  nearest double, ties to the even significand. For \<open>0 < x\<close>, \<open>ilog2 x\<close> is the
  exponent \<open>e\<close> with \<open>2\<^sup>e \<le> x < 2\<^sup>e\<^sup>+\<^sup>1\<close>, found from the bit lengths of numerator and
  denominator. The doubles of that binade are the multiples of \<open>2\<^sup>e\<^sup>-\<^sup>5\<^sup>2\<close>; below
  \<open>2\<^sup>-\<^sup>1\<^sup>0\<^sup>2\<^sup>2\<close> the spacing stays at \<open>2\<^sup>-\<^sup>1\<^sup>0\<^sup>7\<^sup>4\<close> (the subnormal doubles, with
  underflow to zero). \<open>round_pos\<close> rounds a positive number to that grid, and
  \<open>round_f64\<close> restores the sign and overflows to infinity when the rounded
  magnitude reaches \<open>2\<^sup>1\<^sup>0\<^sup>2\<^sup>4\<close>, one step above the largest double; the test is on
  the exponent of the rounded magnitude.
\<close>

definition rne :: "rat \<Rightarrow> int" where
  "rne y = (let n = \<lfloor>y\<rfloor>; r = y - of_int n in
     if r < 1 / 2 then n else if 1 / 2 < r then n + 1 else if even n then n else n + 1)"

definition ilog2 :: "rat \<Rightarrow> int" where
  "ilog2 x = (let (p, q) = quotient_of x; k = bitlen p - bitlen q in
     if 2 powi k \<le> x then k else k - 1)"

definition round_pos :: "rat \<Rightarrow> rat" where
  "round_pos x =
     (let e = max (ilog2 x) (- 1022); u = 2 powi (e - 52) in of_int (rne (x / u)) * u)"

definition round_f64 :: "rat \<Rightarrow> number" where
  "round_f64 x =
     (let r = round_pos \<bar>x\<bar> in
      if 1024 \<le> ilog2 r then (if 0 < x then PosInf else NegInf)
      else Finite (sgn x * r))"

text \<open>
  The values a float64 can hold: \<^verbatim>\<open>nan\<close>, the infinities, and the rationals that
  rounding leaves unchanged.
\<close>

fun is_f64 :: "f64 \<Rightarrow> bool" where
  "is_f64 (Number (Finite x)) = (round_f64 x = Finite x)"
| "is_f64 v = True"

text \<open>
  Multiplication and addition with IEEE's rules for the special values: \<^verbatim>\<open>nan\<close>
  propagates, zero times infinity and the sum of opposite infinities are
  \<^verbatim>\<open>nan\<close>, and an infinity otherwise keeps its sign rule.
\<close>

fun f64_sign :: "f64 \<Rightarrow> rat" where
  "f64_sign (Number (Finite x)) = sgn x"
| "f64_sign (Number PosInf) = 1"
| "f64_sign (Number NegInf) = - 1"
| "f64_sign NaN = 0"

fun f64_mul :: "f64 \<Rightarrow> f64 \<Rightarrow> f64" where
  "f64_mul (Number (Finite x)) (Number (Finite y)) = Number (round_f64 (x * y))"
| "f64_mul a b =
     (if a = NaN \<or> b = NaN \<or> f64_sign a * f64_sign b = 0 then NaN
      else if 0 < f64_sign a * f64_sign b then Number PosInf else Number NegInf)"

fun f64_add :: "f64 \<Rightarrow> f64 \<Rightarrow> f64" where
  "f64_add (Number (Finite x)) (Number (Finite y)) = Number (round_f64 (x + y))"
| "f64_add a b =
     (if a = NaN \<or> b = NaN
         \<or> (a = Number PosInf \<and> b = Number NegInf) \<or> (a = Number NegInf \<and> b = Number PosInf)
      then NaN
      else if a = Number PosInf \<or> b = Number PosInf then Number PosInf else Number NegInf)"

section \<open>Edge-grid builder: pixel\_coordinates\<close>

text \<open>
  The \<^verbatim>\<open>Affine\<close> object comes from the external \<^verbatim>\<open>affine\<close> package. The
  builder reads four of its coefficients by position (\<^verbatim>\<open>affine[0]\<close> is the
  x scale, \<^verbatim>\<open>affine[2]\<close> the x origin, \<^verbatim>\<open>affine[4]\<close> the y scale,
  \<^verbatim>\<open>affine[5]\<close> the y origin) and its property \<^verbatim>\<open>is_rectilinear\<close>. The
  package's code for that property is not part of this repository, so its value on
  the transform is a field of the record rather than a function of the coefficients.
\<close>

record affine =
  x_scale :: f64
  x_shear :: f64
  x_origin :: f64
  y_shear :: f64
  y_scale :: f64
  y_origin :: f64
  is_rectilinear :: bool

text \<open>
  \<^verbatim>\<open>np.arange(n, dtype=np.float64)\<close>: the doubles \<open>0, 1, \<dots>, n - 1\<close>, and the
  empty array when \<open>n \<le> 0\<close>. Every integer below \<open>2\<^sup>5\<^sup>3\<close> is a double, and no array
  has that many entries, so the conversion is exact.
\<close>

definition arange :: "int \<Rightarrow> f64 list" where
  "arange n = map (\<lambda>k. Fin (of_nat k)) [0..<nat n]"

definition pixel_coordinates :: "int \<Rightarrow> int \<Rightarrow> affine \<Rightarrow> error + f64 list \<times> f64 list" where
  "pixel_coordinates width height affine =
     (if \<not> is_rectilinear affine then Inl AssertionError
      else
        let pixel_width = x_scale affine;
            pixel_height = f64_mul (Fin (- 1)) (y_scale affine);
            origin_x = x_origin affine;
            origin_y = y_origin affine;
            pix_x = arange (width + 1);
            pix_y = arange (height + 1);
            coords_x = map (\<lambda>p. f64_add (f64_mul p pixel_width) origin_x) pix_x;
            coords_y = map (\<lambda>p. f64_add (f64_mul p pixel_height) origin_y) pix_y
        in Inr (coords_x, coords_y))"

text \<open>
  The edge arithmetic for a finite scale \<open>a\<close> and a finite origin \<open>c\<close> is exact on the
  first \<open>n\<close> indices when neither the product nor the sum is changed by rounding:
  both are doubles, within the range of float64.
\<close>

definition exact_edges :: "rat \<Rightarrow> rat \<Rightarrow> nat \<Rightarrow> bool" where
  "exact_edges a c n =
     list_all (\<lambda>i. is_f64 (Fin (of_nat i * a)) \<and> is_f64 (Fin (of_nat i * a + c))) [0..<n]"

text \<open>
  The edge of index \<open>i\<close> for a finite scale \<open>a\<close> and a finite origin \<open>c\<close>, as a
  number: the rounded product, then the rounded sum, an infinite product staying
  infinite. It exists for the proofs only.
\<close>

definition edge_number :: "rat \<Rightarrow> rat \<Rightarrow> nat \<Rightarrow> number" where
  "edge_number a c i =
     (case round_f64 (of_nat i * a) of
        Finite x \<Rightarrow> round_f64 (x + c)
      | PosInf \<Rightarrow> PosInf
      | NegInf \<Rightarrow> NegInf)"

section \<open>The vectorised lookup, point by point\<close>

lemma adjust_map:
  "map (\<lambda>(i, m). if m then i - 1 else i) (zip (map f ps) (map h ps))
     = map (\<lambda>p. f p - (if h p then 1 else (0::int))) ps"
  by (induction ps) auto

lemma world_to_image_idx:
  "(let idx = (if g ! 1 < g ! 0 then
                 let rev_idx = map (\<lambda>p. int (searchsorted_left (rev g) p) + 1) ps
                 in map (\<lambda>r. int (length g) - r) rev_idx
               else map (\<lambda>p. int (searchsorted_right g p) - 1) ps);
        on_end = map (\<lambda>p. p = last g) ps
    in map (\<lambda>(i, m). if m then i - 1 else i) (zip idx on_end)) = map (pixel_of g) ps"
  by (simp add: Let_def adjust_map pixel_of_def comp_def)

lemma world_to_image_pointwise:
  "world_to_image ps g =
     (if length g < 2 then Inl IndexError
      else if list_all (\<lambda>q. 0 \<le> pixel_of g q \<and> pixel_of g q < int (length g) - 1) ps
        then Inr (map (pixel_of g) ps)
        else Inl (ValueError ''Queried location is not in the image''))"
proof -
  have "world_to_image ps g =
     (if length g < 2 then Inl IndexError
      else if \<not> list_all (\<lambda>i. 0 \<le> i \<and> i < int (length g) - 1) (map (pixel_of g) ps)
        then Inl (ValueError ''Queried location is not in the image'')
        else Inr (map (pixel_of g) ps))"
    unfolding world_to_image_def using world_to_image_idx [of g ps]
    by (simp add: Let_def)
  then show ?thesis
    by (simp add: list.pred_map comp_def)
qed

section \<open>Ordered search on strictly sorted lists\<close>

lemma searchsorted_right_inside:
  assumes "sorted_wrt (<) g" "Suc i < length g" "g ! i \<le> q" "q < g ! Suc i"
  shows "searchsorted_right g q = Suc i"
proof -
  have "takeWhile (\<lambda>x. x \<le> q) g = take (Suc i) g"
  proof (rule takeWhile_eq_take_P_nth)
    fix j assume j: "j < Suc i" "j < length g"
    show "g ! j \<le> q"
    proof (cases "j = i")
      case True then show ?thesis using assms(3) by simp
    next
      case False
      then have "j < i" using j by simp
      then have "g ! j < g ! i"
        using assms(1,2) by (simp add: sorted_wrt_nth_less)
      then show ?thesis using assms(3) by simp
    qed
  next
    show "\<not> g ! Suc i \<le> q" using assms(4) by simp
  qed
  then show ?thesis using assms(2) by (simp add: searchsorted_right_def)
qed

lemma searchsorted_right_below:
  "g \<noteq> [] \<Longrightarrow> q < g ! 0 \<Longrightarrow> searchsorted_right g q = 0"
  by (cases g) (simp_all add: searchsorted_right_def)

lemma sorted_wrt_less_le_last:
  fixes g :: "'a::linorder list"
  assumes "sorted_wrt (<) g" "x \<in> set g"
  shows "x \<le> last g"
proof -
  obtain j where j: "j < length g" "x = g ! j"
    using assms(2) by (auto simp: in_set_conv_nth)
  show ?thesis
  proof (cases "j = length g - 1")
    case True
    moreover have "g \<noteq> []" using j by auto
    ultimately show ?thesis using j by (simp add: last_conv_nth)
  next
    case False
    moreover have "g \<noteq> []" using j by auto
    moreover have "g ! j < g ! (length g - 1)"
      using sorted_wrt_nth_less [OF assms(1), of j "length g - 1"] j False by simp
    ultimately show ?thesis using j by (simp add: last_conv_nth)
  qed
qed

lemma sorted_wrt_less_hd_le:
  fixes g :: "'a::linorder list"
  assumes "sorted_wrt (<) g" "x \<in> set g"
  shows "g ! 0 \<le> x"
proof -
  obtain j where j: "j < length g" "x = g ! j"
    using assms(2) by (auto simp: in_set_conv_nth)
  show ?thesis
  proof (cases "j = 0")
    case True then show ?thesis using j by simp
  next
    case False
    then have "g ! 0 < g ! j"
      using sorted_wrt_nth_less [OF assms(1), of 0 j] j by simp
    then show ?thesis using j by simp
  qed
qed

lemma searchsorted_right_above:
  fixes g :: "'a::linorder list"
  assumes "sorted_wrt (<) g" "last g \<le> q"
  shows "searchsorted_right g q = length g"
proof -
  have "\<forall>x\<in>set g. x \<le> q"
    using sorted_wrt_less_le_last [OF assms(1)] assms(2) by (blast intro: order_trans)
  then have tw: "takeWhile (\<lambda>x. x \<le> q) g = g" by simp
  show ?thesis unfolding searchsorted_right_def tw ..
qed

lemma searchsorted_left_inside:
  assumes "sorted_wrt (<) h" "Suc k < length h" "h ! k < q" "q \<le> h ! Suc k"
  shows "searchsorted_left h q = Suc k"
proof -
  have "takeWhile (\<lambda>x. x < q) h = take (Suc k) h"
  proof (rule takeWhile_eq_take_P_nth)
    fix j assume j: "j < Suc k" "j < length h"
    show "h ! j < q"
    proof (cases "j = k")
      case True then show ?thesis using assms(3) by simp
    next
      case False
      then have "j < k" using j by simp
      then have "h ! j < h ! k"
        using assms(1,2) by (simp add: sorted_wrt_nth_less)
      then show ?thesis using assms(3) by simp
    qed
  next
    show "\<not> h ! Suc k < q" using assms(4) by simp
  qed
  then show ?thesis using assms(2) by (simp add: searchsorted_left_def)
qed

lemma searchsorted_left_below:
  "h \<noteq> [] \<Longrightarrow> q \<le> h ! 0 \<Longrightarrow> searchsorted_left h q = 0"
  by (cases h) (simp_all add: searchsorted_left_def)

lemma searchsorted_left_above:
  fixes h :: "'a::linorder list"
  assumes "sorted_wrt (<) h" "last h < q"
  shows "searchsorted_left h q = length h"
proof -
  have "\<forall>x\<in>set h. x < q"
    using sorted_wrt_less_le_last [OF assms(1)] assms(2) by (blast intro: le_less_trans)
  then have tw: "takeWhile (\<lambda>x. x < q) h = h" by simp
  show ?thesis unfolding searchsorted_left_def tw ..
qed

lemma takeWhile_split_point:
  assumes "g \<noteq> []" "P (g ! 0)" "\<not> P (last g)"
  shows "\<exists>i. Suc i < length g \<and> P (g ! i) \<and> \<not> P (g ! Suc i)"
proof -
  let ?n = "length (takeWhile P g)"
  have pos: "0 < ?n" using assms(1,2) by (cases g) simp_all
  have "\<not> (\<forall>x\<in>set g. P x)"
    using assms(1,3) last_in_set by blast
  then have "takeWhile P g \<noteq> g" by simp
  then have "?n \<noteq> length g"
    by (metis takeWhile_eq_take take_all order_refl)
  then have lt: "?n < length g"
    using length_takeWhile_le [of P g] by simp
  have "takeWhile P g ! (?n - 1) \<in> set (takeWhile P g)" using pos by simp
  then have "P (takeWhile P g ! (?n - 1))" by (blast dest: set_takeWhileD)
  then have a: "P (g ! (?n - 1))" using pos by (simp add: takeWhile_nth)
  have b: "\<not> P (g ! ?n)" using lt by (rule nth_length_takeWhile)
  show ?thesis using a b lt pos by (intro exI [of _ "?n - 1"]) simp
qed

section \<open>The index of one query on a strictly monotonic grid\<close>

lemma ascending_not_reverse:
  fixes g :: "'a::linorder list"
  assumes "ascending g" "2 \<le> length g"
  shows "\<not> g ! 1 < g ! 0"
  using sorted_wrt_nth_less [of "(<)" g 0 1] assms by (simp add: ascending_def)

lemma descending_reverse:
  fixes g :: "'a::linorder list"
  assumes "descending g" "2 \<le> length g"
  shows "g ! 1 < g ! 0"
  using sorted_wrt_nth_less [of "(>)" g 0 1] assms by (simp add: descending_def)

lemma ascending_nth_le_last:
  fixes g :: "'a::linorder list"
  assumes "ascending g" "i < length g"
  shows "g ! i \<le> last g"
  using sorted_wrt_less_le_last [of g "g ! i"] assms by (simp add: ascending_def)

lemma descending_rev: "descending g \<Longrightarrow> sorted_wrt (<) (rev g)"
  by (simp add: descending_def sorted_wrt_rev)

lemma descending_last_le_nth:
  fixes g :: "'a::linorder list"
  assumes "descending g" "i < length g"
  shows "last g \<le> g ! i"
proof -
  have "g ! i \<in> set (rev g)" using assms(2) by simp
  then have "rev g ! 0 \<le> g ! i"
    using descending_rev [OF assms(1)] by (rule sorted_wrt_less_hd_le [rotated])
  moreover have "g \<noteq> []" using assms(2) by auto
  ultimately show ?thesis by (simp add: rev_nth last_conv_nth)
qed

lemma pixel_of_ascending_inside:
  fixes g :: "'a::linorder list"
  assumes "ascending g" "Suc i < length g" "g ! i \<le> q" "q < g ! Suc i"
  shows "pixel_of g q = int i"
proof -
  have "g ! Suc i \<le> last g" using assms(1,2) by (rule ascending_nth_le_last)
  then have "q \<noteq> last g" using assms(4) by auto
  moreover have "\<not> g ! 1 < g ! 0" using assms(1,2) by (intro ascending_not_reverse) auto
  moreover have "searchsorted_right g q = Suc i"
    using assms by (intro searchsorted_right_inside) (simp_all add: ascending_def)
  ultimately show ?thesis by (simp add: pixel_of_def)
qed

lemma pixel_of_ascending_last:
  fixes g :: "'a::linorder list"
  assumes "ascending g" "2 \<le> length g"
  shows "pixel_of g (last g) = int (length g) - 2"
proof -
  have "\<not> g ! 1 < g ! 0" using assms by (rule ascending_not_reverse)
  moreover have "searchsorted_right g (last g) = length g"
    using assms(1) by (intro searchsorted_right_above) (simp_all add: ascending_def)
  ultimately show ?thesis by (simp add: pixel_of_def)
qed

lemma pixel_of_ascending_below:
  fixes g :: "'a::linorder list"
  assumes "ascending g" "2 \<le> length g" "q < g ! 0"
  shows "pixel_of g q = - 1"
proof -
  have "g ! 0 \<le> last g" using assms(1,2) by (intro ascending_nth_le_last) auto
  then have "q \<noteq> last g" using assms(3) by auto
  moreover have "\<not> g ! 1 < g ! 0" using assms(1,2) by (rule ascending_not_reverse)
  moreover have "searchsorted_right g q = 0"
    using assms(2,3) by (intro searchsorted_right_below) auto
  ultimately show ?thesis by (simp add: pixel_of_def)
qed

lemma pixel_of_ascending_above:
  fixes g :: "'a::linorder list"
  assumes "ascending g" "2 \<le> length g" "last g < q"
  shows "pixel_of g q = int (length g) - 1"
proof -
  have "q \<noteq> last g" using assms(3) by auto
  moreover have "\<not> g ! 1 < g ! 0" using assms(1,2) by (rule ascending_not_reverse)
  moreover have "searchsorted_right g q = length g"
    using assms(1,3) by (intro searchsorted_right_above) (simp_all add: ascending_def)
  ultimately show ?thesis by (simp add: pixel_of_def)
qed

lemma pixel_of_descending_inside:
  fixes g :: "'a::linorder list"
  assumes "descending g" "Suc i < length g" "q \<le> g ! i" "g ! Suc i < q"
  shows "pixel_of g q = int i"
proof -
  let ?k = "length g - Suc (Suc i)"
  have "last g \<le> g ! Suc i" using assms(1,2) by (rule descending_last_le_nth)
  then have ne: "q \<noteq> last g" using assms(4) by auto
  have r: "g ! 1 < g ! 0" using assms(1,2) by (intro descending_reverse) auto
  have k: "Suc ?k < length (rev g)" using assms(2) by simp
  have n1: "rev g ! ?k = g ! Suc i" using assms(2) by (simp add: rev_nth)
  have "length g - Suc (Suc ?k) = i" using assms(2) by simp
  then have n2: "rev g ! Suc ?k = g ! i" using assms(2) k by (simp add: rev_nth)
  have "searchsorted_left (rev g) q = Suc ?k"
    using descending_rev [OF assms(1)] k assms(3,4) n1 n2
    by (intro searchsorted_left_inside) simp_all
  then show ?thesis using ne r assms(2) by (simp add: pixel_of_def)
qed

lemma pixel_of_descending_last:
  fixes g :: "'a::linorder list"
  assumes "descending g" "2 \<le> length g"
  shows "pixel_of g (last g) = int (length g) - 2"
proof -
  have ne: "g \<noteq> []" using assms(2) by auto
  have r: "g ! 1 < g ! 0" using assms by (rule descending_reverse)
  have "rev g ! 0 = last g" using ne by (simp add: rev_nth last_conv_nth)
  then have "searchsorted_left (rev g) (last g) = 0"
    using ne by (intro searchsorted_left_below) simp_all
  then show ?thesis using r by (simp add: pixel_of_def)
qed

lemma pixel_of_descending_below:
  fixes g :: "'a::linorder list"
  assumes "descending g" "2 \<le> length g" "g ! 0 < q"
  shows "pixel_of g q = - 1"
proof -
  have ne: "g \<noteq> []" using assms(2) by auto
  have "last g \<le> g ! 0" using assms(1,2) by (intro descending_last_le_nth) auto
  then have nl: "q \<noteq> last g" using assms(3) by auto
  have r: "g ! 1 < g ! 0" using assms(1,2) by (rule descending_reverse)
  have "last (rev g) = g ! 0" using ne by (simp add: last_rev hd_conv_nth)
  then have "searchsorted_left (rev g) q = length (rev g)"
    using descending_rev [OF assms(1)] assms(3) by (intro searchsorted_left_above) simp_all
  then show ?thesis using r nl by (simp add: pixel_of_def)
qed

lemma pixel_of_descending_above:
  fixes g :: "'a::linorder list"
  assumes "descending g" "2 \<le> length g" "q < last g"
  shows "pixel_of g q = int (length g) - 1"
proof -
  have ne: "g \<noteq> []" using assms(2) by auto
  have nl: "q \<noteq> last g" using assms(3) by auto
  have r: "g ! 1 < g ! 0" using assms(1,2) by (rule descending_reverse)
  have "rev g ! 0 = last g" using ne by (simp add: rev_nth last_conv_nth)
  then have "searchsorted_left (rev g) q = 0"
    using ne assms(3) by (intro searchsorted_left_below) simp_all
  then show ?thesis using r nl by (simp add: pixel_of_def)
qed

section \<open>Rounding to the nearest double\<close>

lemma bitlen_powi_bounds:
  assumes "0 < p"
  shows "(2::rat) powi (bitlen p - 1) \<le> of_int p" and "of_int p < (2::rat) powi (bitlen p)"
proof -
  have b: "2 ^ nat (bitlen p - 1) \<le> p" "p < 2 ^ nat (bitlen p)"
    using bitlen_bounds [OF assms] by simp_all
  have pos: "0 < bitlen p"
    using assms bitlen_nonneg [of p] bitlen_eq_zero_iff [of p] by linarith
  have "(2::rat) powi (bitlen p - 1) = of_int (2 ^ nat (bitlen p - 1))"
    using pos by (simp add: power_int_def)
  also have "\<dots> \<le> of_int p" using b(1) by (simp only: of_int_le_iff)
  finally show "(2::rat) powi (bitlen p - 1) \<le> of_int p" .
  have "(of_int p :: rat) < of_int (2 ^ nat (bitlen p))" using b(2) by (simp only: of_int_less_iff)
  also have "\<dots> = (2::rat) powi (bitlen p)"
    using pos by (simp add: power_int_def)
  finally show "of_int p < (2::rat) powi (bitlen p)" .
qed

lemma ilog2_bounds:
  assumes "0 < x"
  shows "2 powi ilog2 x \<le> x" and "x < 2 powi (ilog2 x + 1)"
proof -
  obtain p q where pq: "quotient_of x = (p, q)" by (cases "quotient_of x")
  have q: "0 < q" using pq by (rule quotient_of_denom_pos)
  have x: "x = of_int p / of_int q" using pq by (rule quotient_of_div)
  have p: "0 < p" using assms q x by (simp add: zero_less_divide_iff)
  define k where "k = bitlen p - bitlen q"
  have xq: "x * of_int q = of_int p" using q x by simp
  have qpos: "(0::rat) < of_int q" using q by simp
  have "x * of_int q < (2::rat) powi bitlen p" using bitlen_powi_bounds(2) [OF p] xq by simp
  also have "\<dots> = 2 powi (k + 1) * 2 powi (bitlen q - 1)"
    by (simp add: k_def flip: power_int_add)
  also have "\<dots> \<le> 2 powi (k + 1) * of_int q"
    using bitlen_powi_bounds(1) [OF q] by (intro mult_left_mono) simp_all
  finally have up: "x < 2 powi (k + 1)" using qpos by simp
  have "(2::rat) powi (k - 1) * of_int q < 2 powi (k - 1) * 2 powi bitlen q"
    using bitlen_powi_bounds(2) [OF q] by (intro mult_strict_left_mono) simp_all
  also have "\<dots> = 2 powi (bitlen p - 1)"
    by (simp add: k_def flip: power_int_add)
  also have "\<dots> \<le> x * of_int q" using bitlen_powi_bounds(1) [OF p] xq by simp
  finally have lo: "2 powi (k - 1) < x" using qpos by simp
  have il: "ilog2 x = (if 2 powi k \<le> x then k else k - 1)"
    by (simp add: ilog2_def pq k_def Let_def)
  show "2 powi ilog2 x \<le> x" using lo by (simp add: il)
  show "x < 2 powi (ilog2 x + 1)" using up by (simp add: il not_le)
qed

lemma powi2_mono: "a \<le> b \<Longrightarrow> (2::rat) powi a \<le> 2 powi b"
  by (rule power_int_increasing) simp_all

lemma ilog2_unique:
  assumes "2 powi e \<le> x" "x < 2 powi (e + 1)"
  shows "ilog2 x = e"
proof -
  have "(0::rat) < 2 powi e" by simp
  then have x: "0 < x" using assms(1) by (rule less_le_trans)
  note b = ilog2_bounds [OF x]
  have "\<not> ilog2 x + 1 \<le> e"
  proof
    assume "ilog2 x + 1 \<le> e"
    then have "(2::rat) powi (ilog2 x + 1) \<le> 2 powi e" by (rule powi2_mono)
    then show False using b(2) assms(1) by simp
  qed
  moreover have "\<not> e + 1 \<le> ilog2 x"
  proof
    assume "e + 1 \<le> ilog2 x"
    then have "(2::rat) powi (e + 1) \<le> 2 powi ilog2 x" by (rule powi2_mono)
    then show False using b(1) assms(2) by simp
  qed
  ultimately show ?thesis by simp
qed

lemma ilog2_mono:
  assumes "0 < x" "x \<le> y"
  shows "ilog2 x \<le> ilog2 y"
proof (rule ccontr)
  assume "\<not> ilog2 x \<le> ilog2 y"
  then have "ilog2 y + 1 \<le> ilog2 x" by simp
  then have "(2::rat) powi (ilog2 y + 1) \<le> 2 powi ilog2 x" by (rule powi2_mono)
  moreover have "0 < y" using assms by simp
  ultimately show False
    using ilog2_bounds(1) [OF assms(1)] ilog2_bounds(2) [of y] assms(2) by simp
qed

lemma rne_of_int: "rne (of_int n) = n"
  by (simp add: rne_def)

lemma rne_mono:
  assumes "y \<le> z"
  shows "rne y \<le> rne z"
proof -
  have fl: "\<lfloor>y\<rfloor> \<le> \<lfloor>z\<rfloor>" using assms by (rule floor_mono)
  have up: "rne y \<le> \<lfloor>y\<rfloor> + 1" by (simp add: rne_def Let_def)
  have lo: "\<lfloor>z\<rfloor> \<le> rne z" by (simp add: rne_def Let_def)
  show ?thesis
  proof (cases "\<lfloor>y\<rfloor> = \<lfloor>z\<rfloor>")
    case True
    then have "y - of_int \<lfloor>y\<rfloor> \<le> z - of_int \<lfloor>z\<rfloor>" using assms by simp
    then show ?thesis using True by (auto simp: rne_def Let_def)
  next
    case False
    then have "\<lfloor>y\<rfloor> + 1 \<le> \<lfloor>z\<rfloor>" using fl by simp
    then show ?thesis using up lo by linarith
  qed
qed

lemma ilog2_zero: "ilog2 0 = - 2"
  by code_simp

lemma ilog2_ge_iff:
  assumes "0 \<le> r"
  shows "k \<le> ilog2 r \<longleftrightarrow> (if r = 0 then k \<le> - 2 else 2 powi k \<le> r)"
proof (cases "r = 0")
  case True
  then show ?thesis by (simp add: ilog2_zero)
next
  case False
  then have r: "0 < r" using assms by simp
  have "k \<le> ilog2 r \<longleftrightarrow> 2 powi k \<le> r"
  proof
    assume "k \<le> ilog2 r"
    then have "(2::rat) powi k \<le> 2 powi ilog2 r" by (rule powi2_mono)
    then show "2 powi k \<le> r" using ilog2_bounds(1) [OF r] by simp
  next
    assume a: "2 powi k \<le> r"
    show "k \<le> ilog2 r"
    proof (rule ccontr)
      assume "\<not> k \<le> ilog2 r"
      then have "ilog2 r + 1 \<le> k" by simp
      then have "(2::rat) powi (ilog2 r + 1) \<le> 2 powi k" by (rule powi2_mono)
      then show False using ilog2_bounds(2) [OF r] a by simp
    qed
  qed
  then show ?thesis using False by simp
qed

lemma rne_nonneg: "0 \<le> y \<Longrightarrow> 0 \<le> rne y"
  using rne_mono [of 0 y] rne_of_int [of 0] by simp

lemma round_pos_zero: "round_pos 0 = 0"
  by (simp add: round_pos_def Let_def rne_def)

lemma round_pos_nonneg:
  assumes "0 \<le> x"
  shows "0 \<le> round_pos x"
proof -
  define u :: rat where "u = 2 powi (max (ilog2 x) (- 1022) - 52)"
  have u: "0 < u" by (simp add: u_def)
  have "0 \<le> x / u" using assms u by simp
  then have "0 \<le> rne (x / u)" by (rule rne_nonneg)
  then have "(0::rat) \<le> of_int (rne (x / u)) * u" using u by simp
  then show ?thesis by (simp add: round_pos_def Let_def u_def)
qed

lemma round_pos_upper:
  assumes "0 < x"
  shows "round_pos x \<le> 2 powi (max (ilog2 x) (- 1022) + 1)"
proof -
  define e where "e = max (ilog2 x) (- 1022)"
  define u :: rat where "u = 2 powi (e - 52)"
  have u: "0 < u" by (simp add: u_def)
  have hi_u: "2 powi (e + 1) = of_int (2 ^ 53) * u"
    using power_int_add [of "2::rat" 53 "e - 52"] by (simp add: u_def add.commute)
  have "ilog2 x + 1 \<le> e + 1" by (simp add: e_def)
  then have "(2::rat) powi (ilog2 x + 1) \<le> 2 powi (e + 1)" by (rule powi2_mono)
  then have "x \<le> of_int (2 ^ 53) * u" using ilog2_bounds(2) [OF assms] hi_u by simp
  then have "x / u \<le> of_int (2 ^ 53)" using u by (simp add: pos_divide_le_eq)
  then have "rne (x / u) \<le> rne (of_int (2 ^ 53))" by (rule rne_mono)
  then have "rne (x / u) \<le> 2 ^ 53" by (simp only: rne_of_int)
  then have "(of_int (rne (x / u)) :: rat) \<le> of_int (2 ^ 53)" by (simp only: of_int_le_iff)
  then have "of_int (rne (x / u)) * u \<le> of_int (2 ^ 53) * u"
    using u by (intro mult_right_mono) simp_all
  moreover have "round_pos x = of_int (rne (x / u)) * u"
    by (simp add: round_pos_def Let_def u_def e_def)
  ultimately show ?thesis unfolding hi_u [symmetric] e_def by simp
qed

lemma round_pos_lower:
  assumes "0 < x" "- 1022 \<le> ilog2 x"
  shows "2 powi ilog2 x \<le> round_pos x"
proof -
  define u :: rat where "u = 2 powi (ilog2 x - 52)"
  have u: "0 < u" by (simp add: u_def)
  have lo_u: "2 powi ilog2 x = of_int (2 ^ 52) * u"
    using power_int_add [of "2::rat" 52 "ilog2 x - 52"] by (simp add: u_def)
  have "of_int (2 ^ 52) * u \<le> x" using ilog2_bounds(1) [OF assms(1)] lo_u by simp
  then have "of_int (2 ^ 52) \<le> x / u" using u by (simp add: pos_le_divide_eq)
  then have "rne (of_int (2 ^ 52)) \<le> rne (x / u)" by (rule rne_mono)
  then have "2 ^ 52 \<le> rne (x / u)" by (simp only: rne_of_int)
  then have "(of_int (2 ^ 52) :: rat) \<le> of_int (rne (x / u))" by (simp only: of_int_le_iff)
  then have "of_int (2 ^ 52) * u \<le> of_int (rne (x / u)) * u"
    using u by (intro mult_right_mono) simp_all
  moreover have "max (ilog2 x) (- 1022) = ilog2 x" using assms(2) by simp
  then have "round_pos x = of_int (rne (x / u)) * u"
    by (simp add: round_pos_def Let_def u_def)
  ultimately show ?thesis unfolding lo_u by simp
qed

lemma round_pos_mono:
  assumes "0 < x" "x \<le> y"
  shows "round_pos x \<le> round_pos y"
proof (cases "max (ilog2 x) (- 1022) = max (ilog2 y) (- 1022)")
  case True
  define u :: rat where "u = 2 powi (max (ilog2 x) (- 1022) - 52)"
  have u: "0 < u" by (simp add: u_def)
  have "x / u \<le> y / u" using assms(2) u by (simp add: divide_right_mono)
  then have "rne (x / u) \<le> rne (y / u)" by (rule rne_mono)
  then have "(of_int (rne (x / u)) :: rat) \<le> of_int (rne (y / u))" by (simp only: of_int_le_iff)
  then have "of_int (rne (x / u)) * u \<le> of_int (rne (y / u)) * u"
    using u by (intro mult_right_mono) simp_all
  moreover have "round_pos x = of_int (rne (x / u)) * u"
    by (simp add: round_pos_def u_def Let_def)
  moreover have "round_pos y = of_int (rne (y / u)) * u"
    using True by (simp add: round_pos_def u_def Let_def)
  ultimately show ?thesis by simp
next
  case False
  have y: "0 < y" using assms by simp
  have le: "ilog2 x \<le> ilog2 y" using assms by (rule ilog2_mono)
  then have lt: "max (ilog2 x) (- 1022) + 1 \<le> ilog2 y" using False by (simp add: max_def split: if_splits)
  then have big: "- 1022 \<le> ilog2 y" by (simp add: max_def split: if_splits)
  have "(2::rat) powi (max (ilog2 x) (- 1022) + 1) \<le> 2 powi ilog2 y" using lt by (rule powi2_mono)
  then show ?thesis
    using round_pos_upper [OF assms(1)] round_pos_lower [OF y big] by linarith
qed

lemma round_pos_mono0:
  assumes "0 \<le> x" "x \<le> y"
  shows "round_pos x \<le> round_pos y"
proof (cases "x = 0")
  case True
  then show ?thesis using round_pos_nonneg [of y] assms by (simp add: round_pos_zero)
next
  case False
  then show ?thesis using assms round_pos_mono [of x y] by simp
qed

section \<open>The order of numbers and the monotonicity of rounding\<close>

lemma number_le_simps [simp]:
  "Finite x \<le> Finite y \<longleftrightarrow> x \<le> y"
  "NegInf \<le> v" "v \<le> PosInf"
  "\<not> PosInf \<le> Finite x" "\<not> Finite x \<le> NegInf" "\<not> PosInf \<le> NegInf"
  by (cases v; simp add: less_eq_number_def)+

lemma number_less_simps [simp]:
  "Finite x < Finite y \<longleftrightarrow> x < y"
  "Finite x < PosInf" "NegInf < Finite x" "NegInf < PosInf"
  "\<not> PosInf < v" "\<not> v < NegInf"
  by (cases v; auto simp: less_number_def)+

lemma number_uminus_simps [simp]:
  "- Finite x = Finite (- x)" "- PosInf = NegInf" "- NegInf = PosInf"
  by (simp_all add: uminus_number_def)

lemma round_f64_by_magnitude:
  "round_f64 x =
     (let t = sgn x * round_pos \<bar>x\<bar> in
      if 2 powi 1024 \<le> t then PosInf
      else if t \<le> - (2 powi 1024) then NegInf
      else Finite t)"
proof -
  define H :: rat where "H = 2 powi 1024"
  define r where "r = round_pos \<bar>x\<bar>"
  have H: "0 < H" by (simp add: H_def)
  have r: "0 \<le> r" by (simp add: r_def round_pos_nonneg)
  have ov: "1024 \<le> ilog2 r \<longleftrightarrow> H \<le> r"
    using ilog2_ge_iff [OF r, of 1024] H unfolding H_def by (cases "r = 0") simp_all
  have f: "round_f64 x = (if H \<le> r then (if 0 < x then PosInf else NegInf) else Finite (sgn x * r))"
    unfolding round_f64_def Let_def r_def [symmetric] ov ..
  have z: "r = 0" if "x = 0" using that by (simp add: r_def round_pos_zero)
  have "round_f64 x =
     (if H \<le> sgn x * r then PosInf else if sgn x * r \<le> - H then NegInf else Finite (sgn x * r))"
  proof -
    consider "0 < x" | "x = 0" | "x < 0" by linarith
    then show ?thesis
    proof cases
      case 1
      then show ?thesis using r H by (simp add: f)
    next
      case 2
      with f z H show ?thesis by simp
    next
      case 3
      then show ?thesis using r H by (simp add: f)
    qed
  qed
  then show ?thesis unfolding H_def r_def Let_def .
qed

lemma signed_round_mono:
  assumes "x \<le> y"
  shows "sgn x * round_pos \<bar>x\<bar> \<le> sgn y * round_pos \<bar>y\<bar>"
proof -
  consider "0 \<le> x" | "x < 0" "y < 0" | "x < 0" "0 \<le> y" by linarith
  then show ?thesis
  proof cases
    case 1
    then have "round_pos x \<le> round_pos y" using assms by (rule round_pos_mono0)
    then show ?thesis using 1 assms
      by (cases "x = 0"; cases "y = 0") (simp_all add: round_pos_zero)
  next
    case 2
    then have "round_pos (- y) \<le> round_pos (- x)" using assms by (intro round_pos_mono) simp_all
    then show ?thesis using 2 by simp
  next
    case 3
    have "0 \<le> round_pos (- x)" using 3 by (intro round_pos_nonneg) simp
    moreover have "0 \<le> round_pos y" using 3 by (intro round_pos_nonneg)
    ultimately show ?thesis using 3 by (cases "y = 0") (simp_all add: round_pos_zero)
  qed
qed

lemma round_f64_mono:
  assumes "x \<le> y"
  shows "round_f64 x \<le> round_f64 y"
proof -
  define H :: rat where "H = 2 powi 1024"
  define s where "s = sgn x * round_pos \<bar>x\<bar>"
  define t where "t = sgn y * round_pos \<bar>y\<bar>"
  have H: "0 < H" by (simp add: H_def)
  have st: "s \<le> t" unfolding s_def t_def using assms by (rule signed_round_mono)
  have x: "round_f64 x = (if H \<le> s then PosInf else if s \<le> - H then NegInf else Finite s)"
    unfolding H_def s_def by (simp only: round_f64_by_magnitude Let_def)
  have y: "round_f64 y = (if H \<le> t then PosInf else if t \<le> - H then NegInf else Finite t)"
    unfolding H_def t_def by (simp only: round_f64_by_magnitude Let_def)
  show ?thesis using st H by (simp add: x y)
qed

lemma round_f64_minus: "round_f64 (- x) = - round_f64 x"
proof (cases "x = 0")
  case True
  then show ?thesis by (simp add: round_f64_def Let_def round_pos_zero ilog2_zero)
next
  case False
  then show ?thesis by (auto simp: round_f64_def Let_def)
qed

lemma round_f64_zero: "round_f64 0 = Finite 0"
  by (simp add: round_f64_def Let_def round_pos_zero ilog2_zero)

section \<open>Rounding returns a double\<close>

lemma rne_scaled_upper:
  assumes "0 < x"
  shows "rne (x / 2 powi (max (ilog2 x) (- 1022) - 52)) \<le> 2 ^ 53"
proof -
  define e where "e = max (ilog2 x) (- 1022)"
  define u :: rat where "u = 2 powi (e - 52)"
  have u: "0 < u" by (simp add: u_def)
  have hi_u: "2 powi (e + 1) = of_int (2 ^ 53) * u"
    using power_int_add [of "2::rat" 53 "e - 52"] by (simp add: u_def add.commute)
  have "ilog2 x + 1 \<le> e + 1" by (simp add: e_def)
  then have "(2::rat) powi (ilog2 x + 1) \<le> 2 powi (e + 1)" by (rule powi2_mono)
  then have "x \<le> of_int (2 ^ 53) * u" using ilog2_bounds(2) [OF assms] hi_u by simp
  then have "x / u \<le> of_int (2 ^ 53)" using u by (simp add: pos_divide_le_eq)
  then have "rne (x / u) \<le> rne (of_int (2 ^ 53))" by (rule rne_mono)
  then show ?thesis by (simp only: rne_of_int u_def e_def)
qed

lemma rne_scaled_lower:
  assumes "0 < x" "- 1022 \<le> ilog2 x"
  shows "2 ^ 52 \<le> rne (x / 2 powi (max (ilog2 x) (- 1022) - 52))"
proof -
  define u :: rat where "u = 2 powi (ilog2 x - 52)"
  have u: "0 < u" by (simp add: u_def)
  have lo_u: "2 powi ilog2 x = of_int (2 ^ 52) * u"
    using power_int_add [of "2::rat" 52 "ilog2 x - 52"] by (simp add: u_def)
  have "of_int (2 ^ 52) * u \<le> x" using ilog2_bounds(1) [OF assms(1)] lo_u by simp
  then have "of_int (2 ^ 52) \<le> x / u" using u by (simp add: pos_le_divide_eq)
  then have "rne (of_int (2 ^ 52)) \<le> rne (x / u)" by (rule rne_mono)
  moreover have "max (ilog2 x) (- 1022) = ilog2 x" using assms(2) by simp
  ultimately show ?thesis by (simp only: rne_of_int u_def)
qed

lemma round_pos_idem:
  assumes "0 < x"
  shows "round_pos (round_pos x) = round_pos x"
proof -
  define e where "e = max (ilog2 x) (- 1022)"
  define u :: rat where "u = 2 powi (e - 52)"
  define n where "n = rne (x / u)"
  have u: "0 < u" by (simp add: u_def)
  have e: "- 1022 \<le> e" by (simp add: e_def)
  have y: "round_pos x = of_int n * u" by (simp add: round_pos_def Let_def n_def u_def e_def)
  have n0: "0 \<le> n" unfolding n_def using assms u by (intro rne_nonneg) simp
  have n53: "n \<le> 2 ^ 53" using rne_scaled_upper [OF assms] by (simp add: n_def u_def e_def)
  have lo_u: "2 powi e = of_int (2 ^ 52) * u"
    using power_int_add [of "2::rat" 52 "e - 52"] by (simp add: u_def)
  have hi_u: "2 powi (e + 1) = of_int (2 ^ 53) * u"
    using power_int_add [of "2::rat" 53 "e - 52"] by (simp add: u_def add.commute)
  have same: "round_pos (of_int n * u) = of_int n * u"
    if m: "max (ilog2 (of_int n * u)) (- 1022) = e"
  proof -
    have "round_pos (of_int n * u) = of_int (rne (of_int n * u / u)) * u"
      by (simp only: round_pos_def Let_def m u_def [symmetric])
    also have "of_int n * u / u = (of_int n :: rat)" using u by simp
    finally show ?thesis by (simp add: rne_of_int)
  qed
  consider "n = 0" | "0 < n" "n < 2 ^ 52" | "2 ^ 52 \<le> n" "n < 2 ^ 53" | "n = 2 ^ 53"
    using n0 n53 by linarith
  then show ?thesis
  proof cases
    case 1
    then show ?thesis by (simp add: y round_pos_zero)
  next
    case 2
    have "\<not> - 1022 \<le> ilog2 x"
    proof
      assume "- 1022 \<le> ilog2 x"
      then have "2 ^ 52 \<le> n"
        using rne_scaled_lower [OF assms] by (simp add: n_def u_def e_def)
      then show False using 2 by simp
    qed
    then have em: "e = - 1022" by (simp add: e_def)
    have pos: "(0::rat) < of_int n * u" using 2 u by simp
    have "(of_int n :: rat) < of_int (2 ^ 52)" using 2 by (simp only: of_int_less_iff)
    then have "of_int n * u < 2 powi e"
      unfolding lo_u using u by (intro mult_strict_right_mono) simp_all
    then have "\<not> 2 powi e \<le> of_int n * u" by simp
    then have "\<not> e \<le> ilog2 (of_int n * u)"
      using ilog2_ge_iff [of "of_int n * u" e] pos 2(1) u by simp
    then have "max (ilog2 (of_int n * u)) (- 1022) = e" using em by simp
    then show ?thesis by (simp add: y same)
  next
    case 3
    have "(of_int (2 ^ 52) :: rat) \<le> of_int n" using 3 by (simp only: of_int_le_iff)
    then have a: "2 powi e \<le> of_int n * u"
      unfolding lo_u using u by (intro mult_right_mono) simp_all
    have "(of_int n :: rat) < of_int (2 ^ 53)" using 3 by (simp only: of_int_less_iff)
    then have b: "of_int n * u < 2 powi (e + 1)"
      unfolding hi_u using u by (intro mult_strict_right_mono) simp_all
    have "ilog2 (of_int n * u) = e" using a b by (rule ilog2_unique)
    then have "max (ilog2 (of_int n * u)) (- 1022) = e" using e by simp
    then show ?thesis by (simp add: y same)
  next
    case 4
    have v: "of_int n * u = 2 powi (e + 1)" by (simp add: 4 hi_u)
    have "(2::rat) powi (e + 1) < 2 powi (e + 1 + 1)"
      by (rule power_int_strict_increasing) simp_all
    then have il: "ilog2 (2 powi (e + 1)) = e + 1"
      by (intro ilog2_unique) simp_all
    have m: "max (e + 1) (- 1022) = e + 1" using e by simp
    have d: "(2::rat) powi (e + 1) = of_int (2 ^ 52) * 2 powi (e + 1 - 52)"
      using power_int_add [of "2::rat" 52 "e + 1 - 52"] by (simp add: add.commute)
    have q: "(2::rat) powi (e + 1) / 2 powi (e + 1 - 52) = of_int (2 ^ 52)"
      by (subst d) simp
    have "round_pos (2 powi (e + 1))
            = of_int (rne (2 powi (e + 1) / 2 powi (e + 1 - 52))) * 2 powi (e + 1 - 52)"
      by (simp only: round_pos_def Let_def il m)
    also have "\<dots> = of_int (2 ^ 52) * 2 powi (e + 1 - 52)" by (simp only: q rne_of_int)
    also have "\<dots> = 2 powi (e + 1)" by (simp only: d [symmetric])
    finally show ?thesis by (simp add: y v)
  qed
qed

lemma round_pos_idem0: "0 \<le> x \<Longrightarrow> round_pos (round_pos x) = round_pos x"
  using round_pos_idem [of x] by (cases "x = 0") (simp_all add: round_pos_zero)

lemma is_f64_round_f64: "is_f64 (Number (round_f64 x))"
proof (cases "round_f64 x")
  case (Finite t)
  define r where "r = round_pos \<bar>x\<bar>"
  have r: "0 \<le> r" by (simp add: r_def round_pos_nonneg)
  have ov: "\<not> 1024 \<le> ilog2 r" and t: "t = sgn x * r"
    using Finite by (simp_all add: round_f64_def Let_def r_def [symmetric] split: if_splits)
  have rr: "round_pos r = r" unfolding r_def by (rule round_pos_idem0) simp
  have "round_f64 t = Finite t"
  proof (cases "r = 0")
    case True
    then show ?thesis by (simp add: t round_f64_zero)
  next
    case False
    then have rp: "0 < r" using r by simp
    consider "0 < x" | "x = 0" | "x < 0" by linarith
    then show ?thesis
    proof cases
      case 1
      then have "t = r" by (simp add: t)
      then show ?thesis using rp rr ov by (simp add: round_f64_def Let_def)
    next
      case 2
      then show ?thesis by (simp add: t round_f64_zero)
    next
      case 3
      then have "t = - r" by (simp add: t)
      then show ?thesis using rp rr ov by (simp add: round_f64_def Let_def)
    qed
  qed
  then show ?thesis using Finite by simp
qed simp_all

lemma f64_operations_closed: "is_f64 (f64_mul v w)" "is_f64 (f64_add v w)"
  by (cases "(v, w)" rule: f64_mul.cases; simp add: is_f64_round_f64)+

lemma round_f64_overflow:
  assumes "2 powi 1024 \<le> x"
  shows "round_f64 x = PosInf"
proof -
  have "(0::rat) < 2 powi 1024" by simp
  then have x: "0 < x" using assms by (rule less_le_trans)
  then have i: "1024 \<le> ilog2 x" using ilog2_ge_iff [of x 1024] assms by simp
  then have "(2::rat) powi 1024 \<le> 2 powi ilog2 x" by (rule powi2_mono)
  also have "\<dots> \<le> round_pos x" using x i by (intro round_pos_lower) simp_all
  finally have b: "2 powi 1024 \<le> round_pos x" .
  have "0 < round_pos x" using b \<open>(0::rat) < 2 powi 1024\<close> by (rule less_le_trans [rotated])
  then have "1024 \<le> ilog2 (round_pos x)"
    using ilog2_ge_iff [of "round_pos x" 1024] b by simp
  then show ?thesis using x by (simp add: round_f64_def Let_def)
qed

lemma is_f64_below_overflow:
  assumes "is_f64 (Fin x)"
  shows "\<bar>x\<bar> < 2 powi 1024"
proof -
  define H :: rat where "H = 2 powi 1024"
  define t where "t = sgn x * round_pos \<bar>x\<bar>"
  have "round_f64 x = (if H \<le> t then PosInf else if t \<le> - H then NegInf else Finite t)"
    unfolding H_def t_def by (simp only: round_f64_by_magnitude Let_def)
  moreover have "round_f64 x = Finite x" using assms by simp
  ultimately have "\<not> H \<le> x \<and> \<not> x \<le> - H" by (auto split: if_splits)
  then show ?thesis unfolding H_def by (simp add: abs_less_iff)
qed

lemma round_f64_examples:
  "round_f64 (1 / 10) = Finite (3602879701896397 / 36028797018963968)"
  "round_f64 (1 / 3) = Finite (6004799503160661 / 18014398509481984)"
  "round_f64 9007199254740993 = Finite 9007199254740992"
  "round_f64 9007199254740995 = Finite 9007199254740996"
  "round_f64 (- 9007199254740993) = Finite (- 9007199254740992)"
  "round_f64 (3 / 8) = Finite (3 / 8)"
  by code_simp+

section \<open>The grids the builder returns\<close>

lemma pixel_coordinates_Inr:
  "pixel_coordinates width height aff = Inr (xs, ys) \<longleftrightarrow>
     is_rectilinear aff
     \<and> xs = map (\<lambda>i. f64_add (f64_mul (Fin (of_nat i)) (x_scale aff)) (x_origin aff))
             [0..<nat (width + 1)]
     \<and> ys = map (\<lambda>i. f64_add (f64_mul (Fin (of_nat i)) (f64_mul (Fin (- 1)) (y_scale aff)))
                       (y_origin aff))
             [0..<nat (height + 1)]"
  by (auto simp: pixel_coordinates_def arange_def Let_def comp_def)

lemma edge_is_number:
  "f64_add (f64_mul (Fin (of_nat i)) (Fin a)) (Fin c) = Number (edge_number a c i)"
  by (cases "round_f64 (of_nat i * a)") (simp_all add: edge_number_def)

lemma edge_number_mono:
  assumes "0 \<le> a" "i \<le> j"
  shows "edge_number a c i \<le> edge_number a c j"
proof -
  have "(of_nat i :: rat) * a \<le> of_nat j * a"
    using assms by (intro mult_right_mono) simp_all
  then have "round_f64 (of_nat i * a) \<le> round_f64 (of_nat j * a)" by (rule round_f64_mono)
  then show ?thesis
    by (cases "round_f64 (of_nat i * a)"; cases "round_f64 (of_nat j * a)")
       (simp_all add: edge_number_def round_f64_mono)
qed

lemma edge_number_antimono:
  assumes "a \<le> 0" "i \<le> j"
  shows "edge_number a c j \<le> edge_number a c i"
proof -
  have "(of_nat j :: rat) * a \<le> of_nat i * a"
    using assms by (intro mult_right_mono_neg) simp_all
  then have "round_f64 (of_nat j * a) \<le> round_f64 (of_nat i * a)" by (rule round_f64_mono)
  then show ?thesis
    by (cases "round_f64 (of_nat i * a)"; cases "round_f64 (of_nat j * a)")
       (simp_all add: edge_number_def round_f64_mono)
qed

lemma edges_weakly_monotonic:
  fixes a c :: rat and n :: nat
  defines "g \<equiv> map (edge_number a c) [0..<n]"
  shows "0 \<le> a \<Longrightarrow> sorted g" and "a \<le> 0 \<Longrightarrow> sorted (rev g)"
proof -
  have up: "sorted_wrt (<) [0..<n]" by simp
  show "sorted g" if "0 \<le> a"
    unfolding g_def sorted_wrt_map
    using up by (rule sorted_wrt_mono_rel [rotated]) (rule edge_number_mono [OF that], simp)
  show "sorted (rev g)" if "a \<le> 0"
    unfolding g_def sorted_wrt_rev sorted_wrt_map
    using up by (rule sorted_wrt_mono_rel [rotated]) (rule edge_number_antimono [OF that], simp)
qed

lemma strictly_monotonic_iff_distinct:
  fixes g :: "'a::linorder list"
  assumes "sorted g \<or> sorted (rev g)"
  shows "strictly_monotonic g \<longleftrightarrow> distinct g"
proof
  assume "strictly_monotonic g"
  then have "sorted_wrt (<) g \<or> sorted_wrt (<) (rev g)"
    by (simp add: strictly_monotonic_def ascending_def descending_def sorted_wrt_rev)
  then show "distinct g" using strict_sorted_iff [of g] strict_sorted_iff [of "rev g"] by auto
next
  assume "distinct g"
  then have "sorted_wrt (<) g \<or> sorted_wrt (<) (rev g)"
    using assms strict_sorted_iff [of g] strict_sorted_iff [of "rev g"] by auto
  then show "strictly_monotonic g"
    by (simp add: strictly_monotonic_def ascending_def descending_def sorted_wrt_rev)
qed

lemma is_f64_minus: "is_f64 v \<Longrightarrow> f64_mul (Fin (- 1)) v = - v"
  by (cases v rule: is_f64.cases) (simp_all add: round_f64_minus)

lemma zero_scale_edge: "is_f64 c \<Longrightarrow> f64_add (f64_mul (Fin k) (Fin 0)) c = c"
  by (cases c rule: is_f64.cases) (simp_all add: round_f64_zero)

lemma inj_Number: "map Number gs = map Number hs \<longleftrightarrow> gs = hs"
  by (rule inj_map_eq_map) (simp add: inj_def)

lemma pixel_coordinates_numbers:
  assumes "pixel_coordinates width height aff = Inr (xs, ys)"
  shows "x_scale aff = Fin a \<Longrightarrow> x_origin aff = Fin c
           \<Longrightarrow> xs = map Number (map (edge_number a c) [0..<nat (width + 1)])"
    and "y_scale aff = Fin e \<Longrightarrow> is_f64 (y_scale aff) \<Longrightarrow> y_origin aff = Fin f
           \<Longrightarrow> ys = map Number (map (edge_number (- e) f) [0..<nat (height + 1)])"
proof -
  note r = assms [unfolded pixel_coordinates_Inr]
  show "xs = map Number (map (edge_number a c) [0..<nat (width + 1)])"
    if "x_scale aff = Fin a" "x_origin aff = Fin c"
    using r that by (simp only: edge_is_number map_map comp_def)
  show "ys = map Number (map (edge_number (- e) f) [0..<nat (height + 1)])"
    if "y_scale aff = Fin e" "is_f64 (y_scale aff)" "y_origin aff = Fin f"
  proof -
    have h: "f64_mul (Fin (- 1)) (y_scale aff) = Fin (- e)"
      using is_f64_minus [OF that(2)] that(1) by simp
    show ?thesis using r that(3) by (simp only: h edge_is_number map_map comp_def)
  qed
qed

lemma exact_edges_strict:
  fixes a c :: rat and n :: nat
  assumes "a \<noteq> 0" "exact_edges a c n"
  shows "strictly_monotonic (map (edge_number a c) [0..<n])"
proof -
  have ex: "edge_number a c i = Finite (of_nat i * a + c)" if "i < n" for i
  proof -
    have "round_f64 (of_nat i * a) = Finite (of_nat i * a)"
      and "round_f64 (of_nat i * a + c) = Finite (of_nat i * a + c)"
      using assms(2) that by (simp_all add: exact_edges_def list_all_iff)
    then show ?thesis by (simp add: edge_number_def)
  qed
  have g: "map (edge_number a c) [0..<n] = map (\<lambda>i. Finite (of_nat i * a + c)) [0..<n]"
  proof (rule map_cong [OF refl])
    fix i assume "i \<in> set [0..<n]"
    then have "i < n" by simp
    then show "edge_number a c i = Finite (of_nat i * a + c)" by (rule ex)
  qed
  have up: "sorted_wrt (<) [0..<n]" by simp
  show ?thesis
  proof (cases "0 < a")
    case True
    have "sorted_wrt (<) (map (edge_number a c) [0..<n])"
      unfolding g sorted_wrt_map
      using up by (rule sorted_wrt_mono_rel [rotated]) (simp add: True)
    then show ?thesis by (simp add: strictly_monotonic_def ascending_def)
  next
    case False
    then have neg: "a < 0" using assms(1) by simp
    have "sorted_wrt (>) (map (edge_number a c) [0..<n])"
      unfolding g sorted_wrt_map
      using up by (rule sorted_wrt_mono_rel [rotated]) (simp add: mult_strict_right_mono_neg [OF _ neg])
    then show ?thesis by (simp add: strictly_monotonic_def descending_def)
  qed
qed

text \<open>
  Overflow, on the scale \<open>2\<^sup>1\<^sup>0\<^sup>2\<^sup>3\<close>: the product \<open>2 * 2\<^sup>1\<^sup>0\<^sup>2\<^sup>3\<close> is past the largest
  double, so from index 2 on every x edge is plus infinity, and pixel 2 comes back
  from the round trip as pixel 3.
\<close>

lemma round_f64_power_of_two:
  assumes "- 1074 \<le> k" "k < 1024"
  shows "round_f64 (2 powi k) = Finite (2 powi k)"
proof -
  define x :: rat where "x = 2 powi k"
  define e where "e = max k (- 1022)"
  define m where "m = nat (k - e + 52)"
  have x: "0 < x" by (simp add: x_def)
  have "(2::rat) powi k < 2 powi (k + 1)"
    by (rule power_int_strict_increasing) simp_all
  then have il: "ilog2 x = k" unfolding x_def by (intro ilog2_unique) simp_all
  have m: "int m = k - e + 52" using assms(1) by (simp add: m_def e_def)
  have "x = 2 powi (int m) * 2 powi (e - 52)"
    using power_int_add [of "2::rat" "int m" "e - 52"] by (simp add: m x_def)
  then have xm: "x = of_int (2 ^ m) * 2 powi (e - 52)" by simp
  have "x / 2 powi (e - 52) = of_int (2 ^ m)" by (subst xm) simp
  then have "round_pos x = of_int (rne (of_int (2 ^ m))) * 2 powi (e - 52)"
    by (simp only: round_pos_def Let_def il e_def)
  then have rp: "round_pos x = x" by (simp only: rne_of_int xm [symmetric])
  have "\<not> 1024 \<le> ilog2 x" using il assms(2) by simp
  then have "round_f64 x = Finite x" using x rp by (simp add: round_f64_def Let_def)
  then show ?thesis by (simp only: x_def)
qed

lemma overflow_collapses_edges:
  defines "aff \<equiv> \<lparr>x_scale = Fin (2 powi 1023), x_shear = Fin 0, x_origin = Fin 0,
                    y_shear = Fin 0, y_scale = Fin (- 1), y_origin = Fin 0,
                    is_rectilinear = True\<rparr>"
    and "g \<equiv> [Finite 0, Finite (2 powi 1023), PosInf, PosInf, PosInf]"
  shows "pixel_coordinates 4 1 aff = Inr (map Number g, map Number [Finite 0, Finite 1])"
    and "image_to_world \<lparr>ndim = 1, dtype = Int64, items = [2]\<rparr>
           \<lparr>ndim = 1, dtype = Float64, items = g\<rparr> = Inr [PosInf]"
    and "world_to_image [PosInf] g = Inr [3]"
proof -
  define S :: rat where "S = 2 powi 1023"
  have S: "0 < S" by (simp add: S_def)
  have two: "2 powi 1024 = 2 * S"
    using power_int_add [of "2::rat" 1 1023] by (simp add: S_def)
  have r0: "round_f64 0 = Finite 0" by (rule round_f64_zero)
  have r1: "round_f64 1 = Finite 1" by code_simp
  have rS: "round_f64 S = Finite S" unfolding S_def by (rule round_f64_power_of_two) simp_all
  have "2 powi 1024 \<le> 2 * S" "2 powi 1024 \<le> 3 * S" "2 powi 1024 \<le> 4 * S"
    unfolding two using S by simp_all
  then have r2: "round_f64 (2 * S) = PosInf" and r3: "round_f64 (3 * S) = PosInf"
    and r4: "round_f64 (4 * S) = PosInf"
    by (simp_all only: round_f64_overflow)
  have up: "[0..<5] = [0, 1, 2, 3, 4]" "[0..<2] = [0, 1]" by (simp_all add: upt_rec)
  have gS: "g = [Finite 0, Finite S, PosInf, PosInf, PosInf]" by (simp add: g_def S_def)
  have aS: "aff = \<lparr>x_scale = Fin S, x_shear = Fin 0, x_origin = Fin 0,
                    y_shear = Fin 0, y_scale = Fin (- 1), y_origin = Fin 0,
                    is_rectilinear = True\<rparr>"
    by (simp add: aff_def S_def)
  show "pixel_coordinates 4 1 aff = Inr (map Number g, map Number [Finite 0, Finite 1])"
    unfolding gS aS
    by (simp add: pixel_coordinates_def arange_def Let_def up r0 r1 rS r2 r3 r4)
  show "image_to_world \<lparr>ndim = 1, dtype = Int64, items = [2]\<rparr>
           \<lparr>ndim = 1, dtype = Float64, items = g\<rparr> = Inr [PosInf]"
    unfolding gS by (simp add: image_to_world_def)
  show "world_to_image [PosInf] g = Inr [3]"
    unfolding gS using S
    by (simp add: world_to_image_pointwise pixel_of_def searchsorted_right_def)
qed

section \<open>Single queries and round trips\<close>

lemma single_pixel_iff:
  "2 \<le> length g \<Longrightarrow>
     world_to_image [q] g = Inr [k] \<longleftrightarrow>
       (pixel_of g q = k \<and> 0 \<le> k \<and> k < int (length g) - 1)"
  by (auto simp: world_to_image_pointwise)

lemma out_of_range_rejected:
  assumes "2 \<le> length g" "q \<in> set ps" "pixel_of g q < 0 \<or> int (length g) - 1 \<le> pixel_of g q"
  shows "world_to_image ps g = Inl (ValueError ''Queried location is not in the image'')"
proof -
  have "\<not> list_all (\<lambda>q. 0 \<le> pixel_of g q \<and> pixel_of g q < int (length g) - 1) ps"
    using assms(2,3) by (fastforce simp: list_all_iff)
  then show ?thesis using assms(1) by (simp add: world_to_image_pointwise)
qed

lemma world_to_image_edge:
  fixes g :: "'a::linorder list"
  assumes "strictly_monotonic g" "Suc j < length g"
  shows "world_to_image [g ! j] g = Inr [int j]"
proof -
  have lt: "g ! j < g ! Suc j" if "ascending g"
    using sorted_wrt_nth_less [of "(<)" g j "Suc j"] that assms(2) by (simp add: ascending_def)
  have gt: "g ! Suc j < g ! j" if "descending g"
    using sorted_wrt_nth_less [of "(>)" g j "Suc j"] that assms(2) by (simp add: descending_def)
  have "pixel_of g (g ! j) = int j"
    using assms lt gt
      pixel_of_ascending_inside [of g j "g ! j"] pixel_of_descending_inside [of g j "g ! j"]
    by (auto simp: strictly_monotonic_def)
  then show ?thesis
    using assms(2) by (simp add: world_to_image_pointwise)
qed

lemma round_trip_strictly_monotonic:
  fixes g :: "'a::linorder list"
  assumes "strictly_monotonic g" "0 \<le> i" "i < int (length g) - 1"
  shows "image_to_world \<lparr>ndim = 1, dtype = Int64, items = [i]\<rparr>
           \<lparr>ndim = 1, dtype = Float64, items = g\<rparr> = Inr [g ! nat i]"
    and "world_to_image [g ! nat i] g = Inr [i]"
proof -
  show "image_to_world \<lparr>ndim = 1, dtype = Int64, items = [i]\<rparr>
           \<lparr>ndim = 1, dtype = Float64, items = g\<rparr> = Inr [g ! nat i]"
    using assms(2,3) by (simp add: image_to_world_def)
  have "Suc (nat i) < length g" using assms(2,3) by linarith
  then show "world_to_image [g ! nat i] g = Inr [i]"
    using world_to_image_edge [OF assms(1), of "nat i"] assms(2) by simp
qed

section \<open>The claims\<close>

text \<open>
  The witnesses below use one small raster: width 3, height 2, x scale \<open>1/2\<close> from
  origin 100, y scale \<open>1/4\<close> from origin 50. Its x grid \<open>[100, 100.5, 101, 101.5]\<close>
  ascends and its y grid \<open>[50, 49.75, 49.5]\<close> descends. The counterexamples to strict
  monotonicity use x origin \<open>2\<^sup>5\<^sup>3 = 9007199254740992\<close> with x scale 1: there
  \<open>2\<^sup>5\<^sup>3 + 1\<close> is not a double and rounds back to \<open>2\<^sup>5\<^sup>3\<close>. A grid that holds no
  \<^verbatim>\<open>nan\<close> is written \<open>map Number g\<close>, and the lookups take its numbers \<open>g\<close>.
\<close>

lemma small_raster:
  "pixel_coordinates 3 2 
     \<lparr>x_scale = Fin (1 / 2), x_shear = Fin 0, x_origin = Fin 100,
      y_shear = Fin 0, y_scale = Fin (1 / 4), y_origin = Fin 50,
      is_rectilinear = True\<rparr> = Inr (map Number [Finite 100, Finite (201 / 2), Finite 101, Finite (203 / 2)], map Number [Finite 50, Finite (199 / 4), Finite (99 / 2)])"
  by code_simp

lemma small_raster_facts:
  "is_f64 (Fin (1 / 4))" "distinct [Finite 100, Finite (201 / 2), Finite 101, Finite (203 / 2)]" "distinct [Finite 50, Finite (199 / 4), Finite (99 / 2)]"
  "exact_edges (1 / 2) 100 (length [Finite 100, Finite (201 / 2), Finite 101, Finite (203 / 2)])"
  "exact_edges (- (1 / 4)) 50 (length [Finite 50, Finite (199 / 4), Finite (99 / 2)])"
  "strictly_monotonic [Finite 100, Finite (201 / 2), Finite 101, Finite (203 / 2)]" "strictly_monotonic [Finite 50, Finite (199 / 4), Finite (99 / 2)]"
  by code_simp+

subsection \<open>C1: round trip pixel, world, pixel\<close>

text \<open>
  C1. The claim is that for every edge grid built from positive width and height, a
  rectilinear transform and nonzero scales, and every pixel index \<open>i\<close> of the axis,
  \<open>image_to_world\<close> on \<open>[i]\<close> followed by \<open>world_to_image\<close> returns \<open>[i]\<close>; the
  docstring of \<open>world_to_image\<close> promises the same exact pixel, location, pixel
  transform. The code breaks it at width 2, height 1, x scale 1 and x origin
  \<open>2\<^sup>5\<^sup>3\<close>: the builder returns the x edges \<open>[2\<^sup>5\<^sup>3, 2\<^sup>5\<^sup>3, 2\<^sup>5\<^sup>3 + 2]\<close>, the forward
  lookup sends pixel 0 to \<open>2\<^sup>5\<^sup>3\<close>, and the inverse lookup sends \<open>2\<^sup>5\<^sup>3\<close> to pixel 1.
  (On a strictly monotonic grid the round trip is exact: lemma
  \<open>round_trip_strictly_monotonic\<close>.)
\<close>

theorem round_trip_fails_on_collapsed_edges:
  "pixel_coordinates 2 1 
     \<lparr>x_scale = Fin 1, x_shear = Fin 0, x_origin = Fin 9007199254740992,
      y_shear = Fin 0, y_scale = Fin (- 1), y_origin = Fin 0,
      is_rectilinear = True\<rparr>
     = Inr (map Number [Finite 9007199254740992, Finite 9007199254740992, Finite 9007199254740994],
            map Number [Finite 0, Finite 1])
   \<and> image_to_world \<lparr>ndim = 1, dtype = Int64, items = [0]\<rparr>
        \<lparr>ndim = 1, dtype = Float64, items = [Finite 9007199254740992, Finite 9007199254740992, Finite 9007199254740994]\<rparr>
       = Inr [Finite 9007199254740992]
   \<and> world_to_image [Finite 9007199254740992] [Finite 9007199254740992, Finite 9007199254740992, Finite 9007199254740994] = Inr [1]"
  by code_simp

subsection \<open>C2: half-open interval ownership\<close>

text \<open>
  C2. For every strictly monotonic edge grid \<open>g\<close> and every pixel index \<open>i\<close> other
  than the last one (\<open>i + 2 < length g\<close>; the last pixel is the subject of C4), the
  inverse lookup maps a query \<open>q\<close> to \<open>i\<close> exactly when \<open>q\<close> lies in the half-open
  interval from edge \<open>i\<close> to edge \<open>i + 1\<close> in the grid's direction:
  \<open>g[i] \<le> q < g[i+1]\<close> ascending, \<open>g[i] \<ge> q > g[i+1]\<close> descending.
\<close>

theorem half_open_interval_ownership:
  fixes g :: "'a::linorder list"
  assumes "strictly_monotonic g" and "i + 2 < length g"
  shows "world_to_image [q] g = Inr [int i] \<longleftrightarrow>
           (if ascending g then g ! i \<le> q \<and> q < g ! (i + 1)
            else q \<le> g ! i \<and> g ! (i + 1) < q)"
proof (cases "ascending g")
  case True
  have len: "2 \<le> length g" using assms(2) by simp
  have "world_to_image [q] g = Inr [int i] \<longleftrightarrow> g ! i \<le> q \<and> q < g ! (i + 1)"
  proof
    assume r: "world_to_image [q] g = Inr [int i]"
    then have p: "pixel_of g q = int i" using len by (simp add: single_pixel_iff)
    have a: "\<not> q < g ! 0"
      using pixel_of_ascending_below [OF True len, of q] p by auto
    have b: "\<not> last g < q"
      using pixel_of_ascending_above [OF True len, of q] p assms(2) by auto
    have c: "q \<noteq> last g"
      using pixel_of_ascending_last [OF True len] p assms(2) by auto
    have "g \<noteq> []" using len by auto
    then obtain j where j: "Suc j < length g" "g ! j \<le> q" "\<not> g ! Suc j \<le> q"
      using takeWhile_split_point [of g "\<lambda>x. x \<le> q"] a b c by force
    then have "pixel_of g q = int j"
      using pixel_of_ascending_inside [OF True, of j q] by simp
    then show "g ! i \<le> q \<and> q < g ! (i + 1)" using p j by simp
  next
    assume "g ! i \<le> q \<and> q < g ! (i + 1)"
    then have "pixel_of g q = int i"
      using pixel_of_ascending_inside [OF True, of i q] assms(2) by simp
    then show "world_to_image [q] g = Inr [int i]"
      using len assms(2) by (simp add: single_pixel_iff)
  qed
  then show ?thesis using True by simp
next
  case False
  then have d: "descending g" using assms(1) by (simp add: strictly_monotonic_def)
  have len: "2 \<le> length g" using assms(2) by simp
  have "world_to_image [q] g = Inr [int i] \<longleftrightarrow> q \<le> g ! i \<and> g ! (i + 1) < q"
  proof
    assume r: "world_to_image [q] g = Inr [int i]"
    then have p: "pixel_of g q = int i" using len by (simp add: single_pixel_iff)
    have a: "\<not> g ! 0 < q"
      using pixel_of_descending_below [OF d len, of q] p by auto
    have b: "\<not> q < last g"
      using pixel_of_descending_above [OF d len, of q] p assms(2) by auto
    have c: "q \<noteq> last g"
      using pixel_of_descending_last [OF d len] p assms(2) by auto
    have "g \<noteq> []" using len by auto
    then obtain j where j: "Suc j < length g" "q \<le> g ! j" "\<not> q \<le> g ! Suc j"
      using takeWhile_split_point [of g "\<lambda>x. q \<le> x"] a b c by force
    then have "pixel_of g q = int j"
      using pixel_of_descending_inside [OF d, of j q] by simp
    then show "q \<le> g ! i \<and> g ! (i + 1) < q" using p j by simp
  next
    assume "q \<le> g ! i \<and> g ! (i + 1) < q"
    then have "pixel_of g q = int i"
      using pixel_of_descending_inside [OF d, of i q] assms(2) by simp
    then show "world_to_image [q] g = Inr [int i]"
      using len assms(2) by (simp add: single_pixel_iff)
  qed
  then show ?thesis using False by simp
qed


theorem half_open_interval_ownership_witness:
  "strictly_monotonic [0, 1, 2, 3 :: rat] \<and> (1::nat) + 2 < length [0, 1, 2, 3 :: rat]
   \<and> ascending [0, 1, 2, 3 :: rat]
   \<and> world_to_image [3 / 2] [0, 1, 2, 3 :: rat] = Inr [1]
   \<and> world_to_image [2] [0, 1, 2, 3 :: rat] \<noteq> Inr [1]
   \<and> strictly_monotonic [3, 2, 1, 0 :: rat] \<and> \<not> ascending [3, 2, 1, 0 :: rat]
   \<and> world_to_image [3 / 2] [3, 2, 1, 0 :: rat] = Inr [1]
   \<and> world_to_image [1] [3, 2, 1, 0 :: rat] \<noteq> Inr [1]"
  using half_open_interval_ownership [of "[0, 1, 2, 3 :: rat]" 1 "3 / 2"]
    half_open_interval_ownership [of "[0, 1, 2, 3 :: rat]" 1 2]
    half_open_interval_ownership [of "[3, 2, 1, 0 :: rat]" 1 "3 / 2"]
    half_open_interval_ownership [of "[3, 2, 1, 0 :: rat]" 1 1]
  by (simp add: strictly_monotonic_def ascending_def descending_def)

subsection \<open>C3: what the builder returns\<close>

text \<open>
  C3. For positive width and height and a rectilinear transform (whose y scale is a
  float64 value, as every coefficient of a transform is), \<open>pixel_coordinates\<close>
  returns two sequences of lengths \<open>width + 1\<close> and \<open>height + 1\<close>; x edge \<open>i\<close> is
  \<open>i * x_scale + x_origin\<close> for \<open>i = 0..width\<close> and y edge \<open>i\<close> is
  \<open>i * (- y_scale) + y_origin\<close> for \<open>i = 0..height\<close>, the product and the sum being
  those of double-precision arithmetic, as in the code.
\<close>

theorem edge_grid_builder_output:
  assumes "is_rectilinear aff" and "0 < width" and "0 < height" and "is_f64 (y_scale aff)"
  shows "\<exists>xs ys. pixel_coordinates width height aff = Inr (xs, ys)
           \<and> int (length xs) = width + 1 \<and> int (length ys) = height + 1
           \<and> (\<forall>i\<le>nat width.
                 xs ! i = f64_add (f64_mul (Fin (of_nat i)) (x_scale aff)) (x_origin aff))
           \<and> (\<forall>i\<le>nat height.
                 ys ! i = f64_add (f64_mul (Fin (of_nat i)) (- y_scale aff)) (y_origin aff))"
proof -
  let ?xs = "map (\<lambda>i. f64_add (f64_mul (Fin (of_nat i)) (x_scale aff)) (x_origin aff))
               [0..<nat (width + 1)]"
  let ?ys = "map (\<lambda>i. f64_add (f64_mul (Fin (of_nat i)) (f64_mul (Fin (- 1)) (y_scale aff)))
                         (y_origin aff))
               [0..<nat (height + 1)]"
  have r: "pixel_coordinates width height aff = Inr (?xs, ?ys)"
    using assms(1) by (simp add: pixel_coordinates_Inr)
  have lx: "int (length ?xs) = width + 1" using assms(2) by simp
  have ly: "int (length ?ys) = height + 1" using assms(3) by simp
  have nx: "?xs ! i = f64_add (f64_mul (Fin (of_nat i)) (x_scale aff)) (x_origin aff)"
    if "i \<le> nat width" for i
  proof -
    have "i < nat (width + 1)" using that assms(2) by linarith
    then show ?thesis by simp
  qed
  have ny: "?ys ! i = f64_add (f64_mul (Fin (of_nat i)) (- y_scale aff)) (y_origin aff)"
    if "i \<le> nat height" for i
  proof -
    have "i < nat (height + 1)" using that assms(3) by linarith
    then show ?thesis by (simp add: is_f64_minus [OF assms(4)])
  qed
  show ?thesis using r lx ly nx ny by blast
qed

theorem edge_grid_builder_output_witness:
  "is_rectilinear 
     \<lparr>x_scale = Fin (1 / 2), x_shear = Fin 0, x_origin = Fin 100,
      y_shear = Fin 0, y_scale = Fin (1 / 4), y_origin = Fin 50,
      is_rectilinear = True\<rparr> \<and> (0::int) < 3 \<and> (0::int) < 2 \<and> is_f64 (y_scale 
     \<lparr>x_scale = Fin (1 / 2), x_shear = Fin 0, x_origin = Fin 100,
      y_shear = Fin 0, y_scale = Fin (1 / 4), y_origin = Fin 50,
      is_rectilinear = True\<rparr>)
   \<and> pixel_coordinates 3 2 
     \<lparr>x_scale = Fin (1 / 2), x_shear = Fin 0, x_origin = Fin 100,
      y_shear = Fin 0, y_scale = Fin (1 / 4), y_origin = Fin 50,
      is_rectilinear = True\<rparr> = Inr (map Number [Finite 100, Finite (201 / 2), Finite 101, Finite (203 / 2)], map Number [Finite 50, Finite (199 / 4), Finite (99 / 2)])
   \<and> int (length (map Number [Finite 100, Finite (201 / 2), Finite 101, Finite (203 / 2)])) = 3 + 1
   \<and> int (length (map Number [Finite 50, Finite (199 / 4), Finite (99 / 2)])) = 2 + 1
   \<and> map Number [Finite 100, Finite (201 / 2), Finite 101, Finite (203 / 2)] ! 3 = f64_add (f64_mul (Fin 3) (Fin (1 / 2))) (Fin 100)
   \<and> map Number [Finite 50, Finite (199 / 4), Finite (99 / 2)] ! 2 = f64_add (f64_mul (Fin 2) (Fin (- (1 / 4)))) (Fin 50)"
proof -
  have h: "is_rectilinear 
     \<lparr>x_scale = Fin (1 / 2), x_shear = Fin 0, x_origin = Fin 100,
      y_shear = Fin 0, y_scale = Fin (1 / 4), y_origin = Fin 50,
      is_rectilinear = True\<rparr>" "(0::int) < 3" "(0::int) < 2" "is_f64 (y_scale 
     \<lparr>x_scale = Fin (1 / 2), x_shear = Fin 0, x_origin = Fin 100,
      y_shear = Fin 0, y_scale = Fin (1 / 4), y_origin = Fin 50,
      is_rectilinear = True\<rparr>)"
    using small_raster_facts(1) by simp_all
  from edge_grid_builder_output [OF h] obtain xs ys where
    r: "pixel_coordinates 3 2 
     \<lparr>x_scale = Fin (1 / 2), x_shear = Fin 0, x_origin = Fin 100,
      y_shear = Fin 0, y_scale = Fin (1 / 4), y_origin = Fin 50,
      is_rectilinear = True\<rparr> = Inr (xs, ys)"
    and x: "\<forall>i\<le>nat 3. xs ! i = f64_add (f64_mul (Fin (of_nat i)) (Fin (1 / 2))) (Fin 100)"
    and y: "\<forall>i\<le>nat 2. ys ! i = f64_add (f64_mul (Fin (of_nat i)) (Fin (- (1 / 4)))) (Fin 50)"
    by auto
  have e: "xs = map Number [Finite 100, Finite (201 / 2), Finite 101, Finite (203 / 2)]" "ys = map Number [Finite 50, Finite (199 / 4), Finite (99 / 2)]"
    using r small_raster by simp_all
  have "xs ! 3 = f64_add (f64_mul (Fin (of_nat 3)) (Fin (1 / 2))) (Fin 100)"
    using x by (simp del: f64_mul.simps f64_add.simps)
  moreover have "ys ! 2 = f64_add (f64_mul (Fin (of_nat 2)) (Fin (- (1 / 4)))) (Fin 50)"
    using y by (simp del: f64_mul.simps f64_add.simps)
  ultimately show ?thesis using h small_raster e by (simp del: f64_mul.simps f64_add.simps)
qed

subsection \<open>C4: boundary closure\<close>

text \<open>
  C4. For every strictly monotonic edge grid \<open>g\<close> of at least two edges, the query
  equal to the final edge \<open>last g\<close> is mapped to pixel \<open>pixel_count - 1\<close>, that is
  \<open>length g - 2\<close>, with no error. The closure applies at that point only: every other
  edge \<open>g[j]\<close> belongs to the pixel \<open>j\<close> it opens, not to the pixel \<open>j - 1\<close> it closes.
\<close>

theorem boundary_closure:
  fixes g :: "'a::linorder list"
  assumes "strictly_monotonic g" and "2 \<le> length g"
  shows "world_to_image [last g] g = Inr [int (length g) - 2]
         \<and> (Suc j < length g \<longrightarrow> world_to_image [g ! j] g = Inr [int j])"
proof (intro conjI impI)
  have "pixel_of g (last g) = int (length g) - 2"
    using assms pixel_of_ascending_last pixel_of_descending_last
    by (auto simp: strictly_monotonic_def)
  then show "world_to_image [last g] g = Inr [int (length g) - 2]"
    using assms(2) by (simp add: single_pixel_iff)
next
  assume "Suc j < length g"
  with assms(1) show "world_to_image [g ! j] g = Inr [int j]"
    by (rule world_to_image_edge)
qed

theorem boundary_closure_witness:
  "strictly_monotonic [0, 1, 2, 3 :: rat] \<and> 2 \<le> length [0, 1, 2, 3 :: rat]
   \<and> world_to_image [3] [0, 1, 2, 3 :: rat] = Inr [2]
   \<and> world_to_image [2] [0, 1, 2, 3 :: rat] = Inr [2]
   \<and> world_to_image [1] [0, 1, 2, 3 :: rat] = Inr [1]
   \<and> strictly_monotonic [3, 2, 1, 0 :: rat]
   \<and> world_to_image [0] [3, 2, 1, 0 :: rat] = Inr [2]
   \<and> world_to_image [1] [3, 2, 1, 0 :: rat] = Inr [2]"
  using boundary_closure [of "[0, 1, 2, 3 :: rat]" 2] boundary_closure [of "[0, 1, 2, 3 :: rat]" 1]
    boundary_closure [of "[3, 2, 1, 0 :: rat]" 2]
  by (simp add: strictly_monotonic_def ascending_def descending_def)

subsection \<open>C5: out-of-bounds rejection\<close>

text \<open>
  C5, amended. For every strictly monotonic edge grid of at least two edges, if any
  query coordinate of the batch lies outside the closed interval spanned by the
  grid, \<open>world_to_image\<close> raises a \<^verbatim>\<open>ValueError\<close> whose message is the fixed text
  "Queried location is not in the image"; the call fails as a whole, with no partial
  result and no index clamped or wrapped. The error carries neither the failing
  coordinate nor the valid range.
\<close>

theorem out_of_bounds_rejected:
  fixes g :: "'a::linorder list"
  assumes "strictly_monotonic g" and "2 \<le> length g" and "q \<in> set ps"
    and "q < min (g ! 0) (last g) \<or> max (g ! 0) (last g) < q"
  shows "world_to_image ps g = Inl (ValueError ''Queried location is not in the image'')"
proof -
  have "pixel_of g q < 0 \<or> int (length g) - 1 \<le> pixel_of g q"
  proof (cases "ascending g")
    case True
    then show ?thesis
      using assms(2,4) pixel_of_ascending_below [OF True assms(2), of q]
        pixel_of_ascending_above [OF True assms(2), of q]
      by auto
  next
    case False
    then have d: "descending g" using assms(1) by (simp add: strictly_monotonic_def)
    show ?thesis
      using assms(2,4) pixel_of_descending_below [OF d assms(2), of q]
        pixel_of_descending_above [OF d assms(2), of q]
      by auto
  qed
  then show ?thesis using assms(2,3) by (rule out_of_range_rejected [rotated 2])
qed

theorem out_of_bounds_rejected_witness:
  "strictly_monotonic [0, 1, 2, 3 :: rat] \<and> 2 \<le> length [0, 1, 2, 3 :: rat]
   \<and> (31 / 10 :: rat) \<in> set [1 / 2, 31 / 10]
   \<and> max ([0, 1, 2, 3 :: rat] ! 0) (last [0, 1, 2, 3]) < 31 / 10
   \<and> world_to_image [1 / 2, 31 / 10] [0, 1, 2, 3 :: rat]
       = Inl (ValueError ''Queried location is not in the image'')"
  using out_of_bounds_rejected [of "[0, 1, 2, 3 :: rat]" "31 / 10" "[1 / 2, 31 / 10]"]
  by (simp add: strictly_monotonic_def ascending_def)

text \<open>
  C5 as stated asks for an error that names the failing coordinate and the valid
  range. Two different queries against two different grids raise one and the same
  error value.
\<close>

theorem out_of_bounds_error_is_anonymous:
  "world_to_image [5] [0, 1, 2, 3 :: rat]
     = Inl (ValueError ''Queried location is not in the image'')
   \<and> world_to_image [- 7] [10, 20 :: rat] = world_to_image [5] [0, 1, 2, 3 :: rat]"
  by (simp add: world_to_image_pointwise pixel_of_def searchsorted_right_def)

subsection \<open>C6: monotonicity of the grids\<close>

text \<open>
  C6, amended. For a transform whose scales and origins are finite doubles, each edge
  grid \<open>pixel_coordinates\<close> returns holds no \<^verbatim>\<open>nan\<close> and is monotonic, possibly
  with repeated edges (sorted, or sorted when reversed), and it is strictly monotonic
  exactly when its edges are pairwise distinct. A nonzero scale gives a strictly
  monotonic grid when the edge arithmetic is exact, that is when every product
  \<open>i * scale\<close> and every sum \<open>i * scale + origin\<close> is itself a double, so that
  rounding and overflow change nothing.
\<close>

theorem edge_grids_monotonic:
  assumes "pixel_coordinates width height aff = Inr (xs, ys)"
    and "x_scale aff = Fin a" and "x_origin aff = Fin c"
    and "y_scale aff = Fin e" and "is_f64 (y_scale aff)" and "y_origin aff = Fin f"
  shows "\<exists>gx gy. xs = map Number gx \<and> ys = map Number gy
         \<and> (sorted gx \<or> sorted (rev gx)) \<and> (sorted gy \<or> sorted (rev gy))
         \<and> (strictly_monotonic gx \<longleftrightarrow> distinct gx)
         \<and> (strictly_monotonic gy \<longleftrightarrow> distinct gy)
         \<and> (a \<noteq> 0 \<and> exact_edges a c (length xs) \<longrightarrow> strictly_monotonic gx)
         \<and> (e \<noteq> 0 \<and> exact_edges (- e) f (length ys) \<longrightarrow> strictly_monotonic gy)"
proof -
  let ?gx = "map (edge_number a c) [0..<nat (width + 1)]"
  let ?gy = "map (edge_number (- e) f) [0..<nat (height + 1)]"
  have ex: "xs = map Number ?gx"
    using assms(1,2,3) by (rule pixel_coordinates_numbers(1))
  have ey: "ys = map Number ?gy"
    using assms(1,4,5,6) by (rule pixel_coordinates_numbers(2))
  have "0 \<le> a \<or> a \<le> 0" by linarith
  then have mx: "sorted ?gx \<or> sorted (rev ?gx)"
    using edges_weakly_monotonic [of a c "nat (width + 1)"] by blast
  have "0 \<le> - e \<or> - e \<le> 0" by linarith
  then have my: "sorted ?gy \<or> sorted (rev ?gy)"
    using edges_weakly_monotonic [of "- e" f "nat (height + 1)"] by blast
  have x: "strictly_monotonic ?gx" if "a \<noteq> 0" "exact_edges a c (length xs)"
    using that exact_edges_strict [of a c "nat (width + 1)"] by (simp add: ex)
  have y: "strictly_monotonic ?gy" if "e \<noteq> 0" "exact_edges (- e) f (length ys)"
    using that exact_edges_strict [of "- e" f "nat (height + 1)"] by (simp add: ey)
  show ?thesis
    using ex ey mx my strictly_monotonic_iff_distinct [OF mx]
      strictly_monotonic_iff_distinct [OF my] x y
    by (intro exI [of _ ?gx] exI [of _ ?gy]) blast
qed

theorem edge_grids_monotonic_witness:
  "pixel_coordinates 3 2 
     \<lparr>x_scale = Fin (1 / 2), x_shear = Fin 0, x_origin = Fin 100,
      y_shear = Fin 0, y_scale = Fin (1 / 4), y_origin = Fin 50,
      is_rectilinear = True\<rparr> = Inr (map Number [Finite 100, Finite (201 / 2), Finite 101, Finite (203 / 2)], map Number [Finite 50, Finite (199 / 4), Finite (99 / 2)])
   \<and> x_scale 
     \<lparr>x_scale = Fin (1 / 2), x_shear = Fin 0, x_origin = Fin 100,
      y_shear = Fin 0, y_scale = Fin (1 / 4), y_origin = Fin 50,
      is_rectilinear = True\<rparr> = Fin (1 / 2) \<and> x_origin 
     \<lparr>x_scale = Fin (1 / 2), x_shear = Fin 0, x_origin = Fin 100,
      y_shear = Fin 0, y_scale = Fin (1 / 4), y_origin = Fin 50,
      is_rectilinear = True\<rparr> = Fin 100
   \<and> y_scale 
     \<lparr>x_scale = Fin (1 / 2), x_shear = Fin 0, x_origin = Fin 100,
      y_shear = Fin 0, y_scale = Fin (1 / 4), y_origin = Fin 50,
      is_rectilinear = True\<rparr> = Fin (1 / 4) \<and> is_f64 (y_scale 
     \<lparr>x_scale = Fin (1 / 2), x_shear = Fin 0, x_origin = Fin 100,
      y_shear = Fin 0, y_scale = Fin (1 / 4), y_origin = Fin 50,
      is_rectilinear = True\<rparr>)
   \<and> y_origin 
     \<lparr>x_scale = Fin (1 / 2), x_shear = Fin 0, x_origin = Fin 100,
      y_shear = Fin 0, y_scale = Fin (1 / 4), y_origin = Fin 50,
      is_rectilinear = True\<rparr> = Fin 50
   \<and> (1 / 2 :: rat) \<noteq> 0 \<and> exact_edges (1 / 2) 100 (length (map Number [Finite 100, Finite (201 / 2), Finite 101, Finite (203 / 2)]))
   \<and> strictly_monotonic [Finite 100, Finite (201 / 2), Finite 101, Finite (203 / 2)] \<and> distinct [Finite 100, Finite (201 / 2), Finite 101, Finite (203 / 2)]
   \<and> (1 / 4 :: rat) \<noteq> 0 \<and> exact_edges (- (1 / 4)) 50 (length (map Number [Finite 50, Finite (199 / 4), Finite (99 / 2)]))
   \<and> strictly_monotonic [Finite 50, Finite (199 / 4), Finite (99 / 2)] \<and> distinct [Finite 50, Finite (199 / 4), Finite (99 / 2)]
   \<and> sorted [Finite 100, Finite (201 / 2), Finite 101, Finite (203 / 2)] \<and> sorted (rev [Finite 50, Finite (199 / 4), Finite (99 / 2)])"
proof -
  have h: "x_scale 
     \<lparr>x_scale = Fin (1 / 2), x_shear = Fin 0, x_origin = Fin 100,
      y_shear = Fin 0, y_scale = Fin (1 / 4), y_origin = Fin 50,
      is_rectilinear = True\<rparr> = Fin (1 / 2)" "x_origin 
     \<lparr>x_scale = Fin (1 / 2), x_shear = Fin 0, x_origin = Fin 100,
      y_shear = Fin 0, y_scale = Fin (1 / 4), y_origin = Fin 50,
      is_rectilinear = True\<rparr> = Fin 100"
    "y_scale 
     \<lparr>x_scale = Fin (1 / 2), x_shear = Fin 0, x_origin = Fin 100,
      y_shear = Fin 0, y_scale = Fin (1 / 4), y_origin = Fin 50,
      is_rectilinear = True\<rparr> = Fin (1 / 4)" "is_f64 (y_scale 
     \<lparr>x_scale = Fin (1 / 2), x_shear = Fin 0, x_origin = Fin 100,
      y_shear = Fin 0, y_scale = Fin (1 / 4), y_origin = Fin 50,
      is_rectilinear = True\<rparr>)" "y_origin 
     \<lparr>x_scale = Fin (1 / 2), x_shear = Fin 0, x_origin = Fin 100,
      y_shear = Fin 0, y_scale = Fin (1 / 4), y_origin = Fin 50,
      is_rectilinear = True\<rparr> = Fin 50"
    using small_raster_facts(1) by simp_all
  from edge_grids_monotonic [OF small_raster h] obtain gx gy where
    g: "map Number [Finite 100, Finite (201 / 2), Finite 101, Finite (203 / 2)] = map Number gx" "map Number [Finite 50, Finite (199 / 4), Finite (99 / 2)] = map Number gy"
    and s: "1 / 2 \<noteq> (0::rat) \<and> exact_edges (1 / 2) 100 (length (map Number [Finite 100, Finite (201 / 2), Finite 101, Finite (203 / 2)]))
              \<longrightarrow> strictly_monotonic gx"
      "1 / 4 \<noteq> (0::rat) \<and> exact_edges (- (1 / 4)) 50 (length (map Number [Finite 50, Finite (199 / 4), Finite (99 / 2)]))
              \<longrightarrow> strictly_monotonic gy"
    and d: "strictly_monotonic gx \<longleftrightarrow> distinct gx" "strictly_monotonic gy \<longleftrightarrow> distinct gy"
    by blast
  have e: "gx = [Finite 100, Finite (201 / 2), Finite 101, Finite (203 / 2)]" "gy = [Finite 50, Finite (199 / 4), Finite (99 / 2)]"
    using g by (simp_all only: inj_Number)
  have x: "exact_edges (1 / 2) 100 (length (map Number [Finite 100, Finite (201 / 2), Finite 101, Finite (203 / 2)]))"
    "exact_edges (- (1 / 4)) 50 (length (map Number [Finite 50, Finite (199 / 4), Finite (99 / 2)]))"
    using small_raster_facts(4,5) by simp_all
  have sm: "strictly_monotonic [Finite 100, Finite (201 / 2), Finite 101, Finite (203 / 2)]" "strictly_monotonic [Finite 50, Finite (199 / 4), Finite (99 / 2)]"
    using s x unfolding e by simp_all
  then have dd: "distinct [Finite 100, Finite (201 / 2), Finite 101, Finite (203 / 2)]" "distinct [Finite 50, Finite (199 / 4), Finite (99 / 2)]" using d unfolding e by simp_all
  have so: "sorted [Finite 100, Finite (201 / 2), Finite 101, Finite (203 / 2)]" "sorted (rev [Finite 50, Finite (199 / 4), Finite (99 / 2)])" by simp_all
  show ?thesis using h small_raster x sm dd so by simp
qed

text \<open>
  C6 as stated fails: width 1, height 1, x scale 1, x origin \<open>2\<^sup>5\<^sup>3\<close>. Both x
  edges are \<open>2\<^sup>5\<^sup>3\<close>.
\<close>

theorem edge_grid_not_strictly_monotonic:
  "pixel_coordinates 1 1 
     \<lparr>x_scale = Fin 1, x_shear = Fin 0, x_origin = Fin 9007199254740992,
      y_shear = Fin 0, y_scale = Fin (- 1), y_origin = Fin 0,
      is_rectilinear = True\<rparr>
     = Inr (map Number [Finite 9007199254740992, Finite 9007199254740992],
            map Number [Finite 0, Finite 1])
   \<and> \<not> strictly_monotonic [Finite 9007199254740992, Finite 9007199254740992]"
  by code_simp

subsection \<open>C7: when the builder fails\<close>

text \<open>
  C7, amended. \<open>pixel_coordinates\<close> fails, with an \<^verbatim>\<open>AssertionError\<close>, exactly when
  the transform is not rectilinear. A rectilinear transform always yields two grids,
  of lengths \<open>max 0 (width + 1)\<close> and \<open>max 0 (height + 1)\<close>, whatever the scales and
  whatever the signs of width and height; on an axis whose scale is zero every edge
  of the grid is the origin of that axis (a float64 value).
\<close>

theorem builder_fails_iff_not_rectilinear:
  "(pixel_coordinates width height aff = Inl AssertionError \<longleftrightarrow> \<not> is_rectilinear aff)
   \<and> (is_rectilinear aff \<longrightarrow>
        (\<exists>xs ys. pixel_coordinates width height aff = Inr (xs, ys)
           \<and> length xs = nat (width + 1) \<and> length ys = nat (height + 1)
           \<and> (x_scale aff = Fin 0 \<and> is_f64 (x_origin aff)
                \<longrightarrow> xs = replicate (nat (width + 1)) (x_origin aff))
           \<and> (y_scale aff = Fin 0 \<and> is_f64 (y_origin aff)
                \<longrightarrow> ys = replicate (nat (height + 1)) (y_origin aff))))"
proof (intro conjI impI)
  show "pixel_coordinates width height aff = Inl AssertionError \<longleftrightarrow> \<not> is_rectilinear aff"
    by (simp add: pixel_coordinates_def Let_def)
next
  assume rect: "is_rectilinear aff"
  let ?xs = "map (\<lambda>i. f64_add (f64_mul (Fin (of_nat i)) (x_scale aff)) (x_origin aff))
               [0..<nat (width + 1)]"
  let ?ys = "map (\<lambda>i. f64_add (f64_mul (Fin (of_nat i)) (f64_mul (Fin (- 1)) (y_scale aff)))
                         (y_origin aff))
               [0..<nat (height + 1)]"
  have r: "pixel_coordinates width height aff = Inr (?xs, ?ys)"
    using rect by (simp add: pixel_coordinates_Inr)
  have x: "?xs = replicate (nat (width + 1)) (x_origin aff)"
    if "x_scale aff = Fin 0 \<and> is_f64 (x_origin aff)"
    using that by (simp add: zero_scale_edge map_replicate_const del: f64_mul.simps f64_add.simps)
  have "f64_mul (Fin (- 1)) (Fin 0) = Fin 0" by (simp add: round_f64_zero)
  then have y: "?ys = replicate (nat (height + 1)) (y_origin aff)"
    if "y_scale aff = Fin 0 \<and> is_f64 (y_origin aff)"
    using that by (simp add: zero_scale_edge map_replicate_const del: f64_mul.simps f64_add.simps)
  show "\<exists>xs ys. pixel_coordinates width height aff = Inr (xs, ys)
           \<and> length xs = nat (width + 1) \<and> length ys = nat (height + 1)
           \<and> (x_scale aff = Fin 0 \<and> is_f64 (x_origin aff)
                \<longrightarrow> xs = replicate (nat (width + 1)) (x_origin aff))
           \<and> (y_scale aff = Fin 0 \<and> is_f64 (y_origin aff)
                \<longrightarrow> ys = replicate (nat (height + 1)) (y_origin aff))"
    using r x y by (intro exI [of _ ?xs] exI [of _ ?ys]) simp
qed

lemma zero_scale_raster:
  "pixel_coordinates 2 1 
     \<lparr>x_scale = Fin 0, x_shear = Fin 0, x_origin = Fin 5,
      y_shear = Fin 0, y_scale = Fin 0, y_origin = Fin 7,
      is_rectilinear = True\<rparr>
     = Inr ([Fin 5, Fin 5, Fin 5], [Fin 7, Fin 7])"
  "is_f64 (Fin 5)" "is_f64 (Fin 7)"
  by code_simp+

theorem builder_fails_iff_not_rectilinear_witness:
  "is_rectilinear 
     \<lparr>x_scale = Fin 0, x_shear = Fin 0, x_origin = Fin 5,
      y_shear = Fin 0, y_scale = Fin 0, y_origin = Fin 7,
      is_rectilinear = True\<rparr>
   \<and> x_scale 
     \<lparr>x_scale = Fin 0, x_shear = Fin 0, x_origin = Fin 5,
      y_shear = Fin 0, y_scale = Fin 0, y_origin = Fin 7,
      is_rectilinear = True\<rparr> = Fin 0 \<and> is_f64 (x_origin 
     \<lparr>x_scale = Fin 0, x_shear = Fin 0, x_origin = Fin 5,
      y_shear = Fin 0, y_scale = Fin 0, y_origin = Fin 7,
      is_rectilinear = True\<rparr>)
   \<and> y_scale 
     \<lparr>x_scale = Fin 0, x_shear = Fin 0, x_origin = Fin 5,
      y_shear = Fin 0, y_scale = Fin 0, y_origin = Fin 7,
      is_rectilinear = True\<rparr> = Fin 0 \<and> is_f64 (y_origin 
     \<lparr>x_scale = Fin 0, x_shear = Fin 0, x_origin = Fin 5,
      y_shear = Fin 0, y_scale = Fin 0, y_origin = Fin 7,
      is_rectilinear = True\<rparr>)
   \<and> pixel_coordinates 2 1 
     \<lparr>x_scale = Fin 0, x_shear = Fin 0, x_origin = Fin 5,
      y_shear = Fin 0, y_scale = Fin 0, y_origin = Fin 7,
      is_rectilinear = True\<rparr>
       = Inr (replicate (nat (2 + 1)) (Fin 5), replicate (nat (1 + 1)) (Fin 7))
   \<and> \<not> is_rectilinear 
     \<lparr>x_scale = Fin (1 / 2), x_shear = Fin 1, x_origin = Fin 100,
      y_shear = Fin 0, y_scale = Fin (1 / 4), y_origin = Fin 50,
      is_rectilinear = False\<rparr>
   \<and> pixel_coordinates 3 2 
     \<lparr>x_scale = Fin (1 / 2), x_shear = Fin 1, x_origin = Fin 100,
      y_shear = Fin 0, y_scale = Fin (1 / 4), y_origin = Fin 50,
      is_rectilinear = False\<rparr> = Inl AssertionError"
  using builder_fails_iff_not_rectilinear [of 2 1 "
     \<lparr>x_scale = Fin 0, x_shear = Fin 0, x_origin = Fin 5,
      y_shear = Fin 0, y_scale = Fin 0, y_origin = Fin 7,
      is_rectilinear = True\<rparr>"]
    builder_fails_iff_not_rectilinear [of 3 2 "
     \<lparr>x_scale = Fin (1 / 2), x_shear = Fin 1, x_origin = Fin 100,
      y_shear = Fin 0, y_scale = Fin (1 / 4), y_origin = Fin 50,
      is_rectilinear = False\<rparr>"]
    zero_scale_raster
  by (simp add: numeral_eq_Suc)

text \<open>
  C7 as stated fails: a zero scale on both axes, and a zero width with a negative
  height, are accepted and grids come back.
\<close>

theorem builder_accepts_zero_scale_and_nonpositive_size:
  "pixel_coordinates 2 1 
     \<lparr>x_scale = Fin 0, x_shear = Fin 0, x_origin = Fin 5,
      y_shear = Fin 0, y_scale = Fin 0, y_origin = Fin 7,
      is_rectilinear = True\<rparr>
     = Inr ([Fin 5, Fin 5, Fin 5], [Fin 7, Fin 7])
   \<and> pixel_coordinates 0 (- 3)
     \<lparr>x_scale = Fin 1, x_shear = Fin 0, x_origin = Fin 5,
      y_shear = Fin 0, y_scale = Fin (- 1), y_origin = Fin 7,
      is_rectilinear = True\<rparr>
     = Inr ([Fin 5], [])"
  by code_simp

subsection \<open>C8: range check of the forward lookup\<close>

text \<open>
  C8, amended. For a one-dimensional float64 grid and a one-dimensional int64 index
  array: if any index is negative or not strictly less than \<open>length grid - 1\<close>,
  \<open>image_to_world\<close> raises an \<^verbatim>\<open>AssertionError\<close>, which carries no index, and no
  index is clamped; otherwise it returns the grid entry at each index.
\<close>

theorem forward_lookup_range_check:
  "image_to_world \<lparr>ndim = 1, dtype = Int64, items = ixs\<rparr>
       \<lparr>ndim = 1, dtype = Float64, items = g\<rparr>
     = (if \<forall>i\<in>set ixs. 0 \<le> i \<and> i < int (length g) - 1
        then Inr (map (\<lambda>i. g ! nat i) ixs) else Inl AssertionError)"
  by (auto simp: image_to_world_def list_all_iff)

theorem forward_lookup_range_check_witness:
  "image_to_world \<lparr>ndim = 1, dtype = Int64, items = [0, 1, 2]\<rparr>
       \<lparr>ndim = 1, dtype = Float64, items = [0, 1, 2, 3 :: rat]\<rparr> = Inr [0, 1, 2]
   \<and> image_to_world \<lparr>ndim = 1, dtype = Int64, items = [0, 3]\<rparr>
       \<lparr>ndim = 1, dtype = Float64, items = [0, 1, 2, 3 :: rat]\<rparr> = Inl AssertionError"
  using forward_lookup_range_check [of "[0, 1, 2]" "[0, 1, 2, 3 :: rat]"]
    forward_lookup_range_check [of "[0, 3]" "[0, 1, 2, 3 :: rat]"]
  by simp

text \<open>
  C8 as stated asks for an error that identifies the offending index. The offending
  indices \<open>-1\<close> and \<open>7\<close> raise one and the same error value.
\<close>

theorem assertion_error_is_anonymous:
  "image_to_world \<lparr>ndim = 1, dtype = Int64, items = [- 1]\<rparr>
       \<lparr>ndim = 1, dtype = Float64, items = [0, 1, 2, 3 :: rat]\<rparr> = Inl AssertionError
   \<and> image_to_world \<lparr>ndim = 1, dtype = Int64, items = [0, 7]\<rparr>
       \<lparr>ndim = 1, dtype = Float64, items = [0, 1, 2, 3 :: rat]\<rparr> = Inl AssertionError"
  by (simp add: image_to_world_def)

subsection \<open>C9: empty batches\<close>

text \<open>
  C9. On an empty index array (one-dimensional, int64) \<open>image_to_world\<close> returns the
  empty result for any one-dimensional float64 grid, and on an empty coordinate
  array \<open>world_to_image\<close> returns the empty result for any grid of at least two
  edges; neither raises.
\<close>

theorem empty_batches_accepted:
  "image_to_world \<lparr>ndim = 1, dtype = Int64, items = []\<rparr>
       \<lparr>ndim = 1, dtype = Float64, items = g\<rparr> = Inr []
   \<and> (2 \<le> length g \<longrightarrow> world_to_image [] g = Inr [])"
  by (simp add: image_to_world_def world_to_image_pointwise)

theorem empty_batches_accepted_witness:
  "2 \<le> length [0, 1, 2, 3 :: rat]
   \<and> image_to_world \<lparr>ndim = 1, dtype = Int64, items = []\<rparr>
       \<lparr>ndim = 1, dtype = Float64, items = [0, 1, 2, 3 :: rat]\<rparr> = Inr []
   \<and> world_to_image [] [0, 1, 2, 3 :: rat] = Inr []"
  using empty_batches_accepted [of "[0, 1, 2, 3 :: rat]"] by simp

subsection \<open>C10: shape and dtype checks of the forward lookup\<close>

text \<open>
  C10. \<open>image_to_world\<close> fails with an \<^verbatim>\<open>AssertionError\<close>, whatever the contents,
  when the index array is not one-dimensional or not int64, or the grid is not
  one-dimensional or not float64. In-range int32 indices are refused.
\<close>

theorem forward_lookup_checks_shape_and_dtype:
  assumes "ndim indices \<noteq> 1 \<or> dtype indices \<noteq> Int64
           \<or> ndim pixel_coordinate_array \<noteq> 1 \<or> dtype pixel_coordinate_array \<noteq> Float64"
  shows "image_to_world indices pixel_coordinate_array = Inl AssertionError"
  using assms by (auto simp: image_to_world_def)

theorem forward_lookup_checks_shape_and_dtype_witness:
  "dtype \<lparr>ndim = 1, dtype = Int32, items = [0, 1 :: int]\<rparr> \<noteq> Int64
   \<and> image_to_world \<lparr>ndim = 1, dtype = Int32, items = [0, 1]\<rparr>
         \<lparr>ndim = 1, dtype = Float64, items = [0, 1, 2, 3 :: rat]\<rparr> = Inl AssertionError"
  using forward_lookup_checks_shape_and_dtype
    [of "\<lparr>ndim = 1, dtype = Int32, items = [0, 1]\<rparr>"
        "\<lparr>ndim = 1, dtype = Float64, items = [0, 1, 2, 3 :: rat]\<rparr>"]
  by simp

end
